theory Spec2Isabelle
  imports Complex_Main
begin

section \<open>The timeline layer of the globe: data model\<close>

text \<open>
  The development follows \<^verbatim>\<open>useTimelineLayer.ts\<close>. JavaScript numbers are taken as
  reals (no NaN, no binary rounding), \<^verbatim>\<open>null\<close>/\<^verbatim>\<open>undefined\<close> as \<open>None\<close>.
  A coordinate pair is written as the source writes it: longitude first.
\<close>

type_synonym lnglat = "real \<times> real"

text \<open>
  A session as far as the layer reads it: \<^verbatim>\<open>session_id\<close>, \<^verbatim>\<open>user_id\<close> (avatar and name
  of the tooltip) and the nullable \<^verbatim>\<open>lat\<close>/\<^verbatim>\<open>lon\<close>.
\<close>

record session =
  session_id :: string
  user_id :: string
  lat :: "real option"
  lon :: "real option"

text \<open>
  The \<^verbatim>\<open>properties\<close> bag of a feature of the source \<^verbatim>\<open>timeline-sessions\<close>: either the
  session of a point, or the synthetic properties of a cluster (\<^verbatim>\<open>cluster: true\<close>,
  \<^verbatim>\<open>cluster_id\<close>, \<^verbatim>\<open>point_count\<close>). A feature may carry no properties at all.
\<close>

datatype properties =
  PointProps session
| ClusterProps (cluster_id: nat) (point_count: "nat option")

record feature =
  properties :: "properties option"
  coordinates :: lnglat

text \<open>Truthiness of a nullable number and of a string, as \<^verbatim>\<open>&&\<close>, \<^verbatim>\<open>!\<close> and \<^verbatim>\<open>Boolean\<close> see them.\<close>

definition truthy_num :: "real option \<Rightarrow> bool" where
  "truthy_num x = (case x of None \<Rightarrow> False | Some v \<Rightarrow> v \<noteq> 0)"

definition truthy_str :: "string \<Rightarrow> bool" where
  "truthy_str s = (s \<noteq> [])"

text \<open>\<^verbatim>\<open>toNumber\<close> of lodash on a nullable number: \<^verbatim>\<open>null\<close> becomes 0.\<close>

definition to_number :: "real option \<Rightarrow> real" where
  "to_number x = (case x of None \<Rightarrow> 0 | Some v \<Rightarrow> v)"

text \<open>
  \<^verbatim>\<open>round(x, 4)\<close> of lodash: shift by four decimal places, \<^verbatim>\<open>Math.round\<close> (ties go up),
  shift back.
\<close>

definition round4 :: "real \<Rightarrow> real" where
  "round4 x = of_int \<lfloor>x * 10000 + 1 / 2\<rfloor> / 10000"

text \<open>The filter \<^verbatim>\<open>s => s.lat && s.lon\<close>.\<close>

definition has_coords :: "session \<Rightarrow> bool" where
  "has_coords s = (truthy_num (lat s) \<and> truthy_num (lon s))"

text \<open>The feature built from a session, in the GeoJSON collection and in the marker candidates.\<close>

definition session_feature :: "session \<Rightarrow> feature" where
  "session_feature s =
     \<lparr>properties = Some (PointProps s),
      coordinates = (round4 (to_number (lon s)), round4 (to_number (lat s)))\<rparr>"

definition session_features :: "session list \<Rightarrow> feature list" where
  "session_features activeSessions = map session_feature (filter has_coords activeSessions)"

subsection \<open>Markers, the pool and the popup\<close>

text \<open>
  A \<^verbatim>\<open>mapboxgl.Marker\<close> together with its element and its click listener. Markers are
  objects that outlive their pool entry, so they live in a store and the pool holds
  their addresses. \<open>m_session\<close> and \<open>m_click_lnglat\<close> are what the closure
  \<^verbatim>\<open>toggleTooltip\<close> captured when the marker was made.
\<close>

record marker =
  m_lnglat :: lnglat
  m_on_map :: bool
  m_listening :: bool
  m_session :: session
  m_click_lnglat :: lnglat

text \<open>
  The closure \<^verbatim>\<open>updateMarkers\<close> of one run of the effect: it captures
  \<^verbatim>\<open>shouldShowClusters\<close> and \<^verbatim>\<open>activeSessions\<close>.
\<close>

record closure =
  c_shouldShowClusters :: bool
  c_activeSessions :: "session list"

text \<open>
  The mutable state one mounted hook owns or reaches: the marker store, \<^verbatim>\<open>markersMapRef\<close>
  (a JavaScript \<^verbatim>\<open>Map\<close>, kept in insertion order), the popup, \<^verbatim>\<open>openTooltipSessionIdRef\<close>,
  the map (\<^verbatim>\<open>map.current\<close>, its source, the visibility of the cluster layers, the data
  of the source, its camera) and the handlers the effect registered on the map:
  \<open>subscription\<close> is the \<^verbatim>\<open>updateMarkers\<close> registered for zoom, move and sourcedata (with
  \<^verbatim>\<open>handleMapClick\<close>), and \<open>cluster_handlers\<close> those of the initialising effect.
\<close>

record world =
  store :: "marker list"
  markersMap :: "(string \<times> nat) list"
  map_current :: bool
  popup_created :: bool
  popup_open :: bool
  popup_lnglat :: "lnglat option"
  popup_session :: "session option"
  openTooltipSessionId :: "string option"
  source_added :: bool
  source_data :: "feature list"
  clusters_visible :: bool
  subscription :: "closure option"
  cluster_handlers :: bool
  camera :: "lnglat \<times> real"
  selectedSession :: "session option"

subsection \<open>Operations on the pool\<close>

definition pool_get :: "string \<Rightarrow> (string \<times> nat) list \<Rightarrow> nat option" where
  "pool_get k pool = map_of pool k"

definition pool_delete :: "string \<Rightarrow> (string \<times> nat) list \<Rightarrow> (string \<times> nat) list" where
  "pool_delete k pool = filter (\<lambda>e. fst e \<noteq> k) pool"

text \<open>\<^verbatim>\<open>Map.set\<close>: a present key keeps its place and takes the value, a new key goes last.\<close>

fun pool_set :: "string \<Rightarrow> nat \<Rightarrow> (string \<times> nat) list \<Rightarrow> (string \<times> nat) list" where
  "pool_set k v [] = [(k, v)]"
| "pool_set k v (e # es) = (if fst e = k then (k, v) # es else e # pool_set k v es)"

text \<open>An update of the marker at an address; an address outside the store has no object.\<close>

definition upd_marker :: "nat \<Rightarrow> (marker \<Rightarrow> marker) \<Rightarrow> marker list \<Rightarrow> marker list" where
  "upd_marker h f ms = (if h < length ms then ms[h := f (ms ! h)] else ms)"

text \<open>\<^verbatim>\<open>cleanup(); marker.remove();\<close>: the listener is detached, the element leaves the map.\<close>

definition destroy_marker :: "nat \<Rightarrow> marker list \<Rightarrow> marker list" where
  "destroy_marker h ms = upd_marker h (\<lambda>m. m\<lparr>m_listening := False, m_on_map := False\<rparr>) ms"

text \<open>
  The loop that both the view switch and the cleanup of the effect run:
  every marker of the pool is destroyed, then \<^verbatim>\<open>markersMap.clear()\<close>.
\<close>

definition removeAllMarkers :: "world \<Rightarrow> world" where
  "removeAllMarkers w =
     w\<lparr>store := fold (\<lambda>e. destroy_marker (snd e)) (markersMap w) (store w),
       markersMap := []\<rparr>"

subsection \<open>The diff of \<^verbatim>\<open>updateMarkers\<close>\<close>

text \<open>\<^verbatim>\<open>f.properties?.session_id\<close>.\<close>

definition feature_session_id :: "feature \<Rightarrow> string option" where
  "feature_session_id f =
     (case properties f of
        Some (PointProps s) \<Rightarrow> Some (session_id s)
      | _ \<Rightarrow> None)"

text \<open>
  \<^verbatim>\<open>new Set(unclusteredFeatures.map(f => f.properties?.session_id).filter(Boolean))\<close>,
  as the list the set is built from.
\<close>

definition currentSessionIds :: "feature list \<Rightarrow> string list" where
  "currentSessionIds fs = filter truthy_str (List.map_filter feature_session_id fs)"

text \<open>
  The removal pass: the entries whose key is not current are destroyed and collected in
  \<^verbatim>\<open>toRemove\<close>, then deleted from the pool.
\<close>

definition removal_pass :: "string list \<Rightarrow> world \<Rightarrow> world" where
  "removal_pass ids w =
     (let toRemove = filter (\<lambda>e. fst e \<notin> set ids) (markersMap w)
      in w\<lparr>store := fold (\<lambda>e. destroy_marker (snd e)) toRemove (store w),
            markersMap := fold (\<lambda>e. pool_delete (fst e)) toRemove (markersMap w)\<rparr>)"

text \<open>The marker made for a session at a coordinate, added to the map, listening for clicks.\<close>

definition new_marker :: "session \<Rightarrow> lnglat \<Rightarrow> marker" where
  "new_marker s ll =
     \<lparr>m_lnglat = ll, m_on_map = True, m_listening = True, m_session = s, m_click_lnglat = ll\<rparr>"

text \<open>
  One round of the create-or-update loop. A feature without a truthy \<^verbatim>\<open>session_id\<close> is
  skipped; an existing marker is moved when its coordinate differs; otherwise a marker
  is made and stored under the session's identifier.
\<close>

definition upsert :: "feature \<Rightarrow> world \<Rightarrow> world" where
  "upsert f w =
     (case properties f of
        Some (PointProps s) \<Rightarrow>
          if \<not> truthy_str (session_id s) then w
          else (case pool_get (session_id s) (markersMap w) of
                  Some h \<Rightarrow>
                    if h < length (store w) \<and> m_lnglat (store w ! h) \<noteq> coordinates f
                    then w\<lparr>store := upd_marker h (\<lambda>m. m\<lparr>m_lnglat := coordinates f\<rparr>) (store w)\<rparr>
                    else w
                | None \<Rightarrow>
                    w\<lparr>store := store w @ [new_marker s (coordinates f)],
                      markersMap := pool_set (session_id s) (length (store w)) (markersMap w)\<rparr>)
      | _ \<Rightarrow> w)"

text \<open>Lines 417 to 598: the target set, the removal pass, the create-or-update loop.\<close>

definition apply_diff :: "feature list \<Rightarrow> world \<Rightarrow> world" where
  "apply_diff unclusteredFeatures w =
     fold upsert unclusteredFeatures (removal_pass (currentSessionIds unclusteredFeatures) w)"

subsection \<open>A reconciliation pass and its leaf fetches\<close>

datatype js_error = Error string

text \<open>
  One call \<^verbatim>\<open>source.getClusterLeaves(cluster_id, point_count, 0, callback)\<close> wrapped in
  a promise, and whether the promise has resolved.
\<close>

record fetch =
  req_cluster_id :: nat
  req_limit :: nat
  req_offset :: nat
  resolved :: bool

text \<open>The locals of a suspended \<^verbatim>\<open>updateMarkers\<close>: \<^verbatim>\<open>unclusteredFeatures\<close> and \<^verbatim>\<open>promises\<close>.\<close>

record pass =
  unclusteredFeatures :: "feature list"
  promises :: "fetch list"

text \<open>
  The body of \<^verbatim>\<open>features.forEach\<close> (lines 376 to 400): a feature without properties is
  skipped, a point is pushed, a cluster whose \<^verbatim>\<open>point_count\<close> is truthy and below 10 gets
  a fetch, any other cluster is ignored.
\<close>

definition process_feature :: "feature \<Rightarrow> pass \<Rightarrow> pass" where
  "process_feature f p =
     (case properties f of
        None \<Rightarrow> p
      | Some (PointProps s) \<Rightarrow> p\<lparr>unclusteredFeatures := unclusteredFeatures p @ [f]\<rparr>
      | Some (ClusterProps cid pc) \<Rightarrow>
          (case pc of
             None \<Rightarrow> p
           | Some c \<Rightarrow>
               if c \<noteq> 0 \<and> c < 10
               then p\<lparr>promises := promises p @
                      [\<lparr>req_cluster_id = cid, req_limit = c, req_offset = 0, resolved = False\<rparr>]\<rparr>
               else p))"

definition query_pass :: "feature list \<Rightarrow> pass" where
  "query_pass features =
     fold process_feature features \<lparr>unclusteredFeatures = [], promises = []\<rparr>"

text \<open>
  The callback \<^verbatim>\<open>(err, leaves) => { if (!err && leaves) push(...leaves); resolve(); }\<close> of
  the promise at index \<open>i\<close>. The source calls the callback of a query once, so a callback
  for a promise that has resolved does not occur.
\<close>

definition leaves_of :: "js_error option \<times> feature list option \<Rightarrow> feature list" where
  "leaves_of r = (case r of (None, Some leaves) \<Rightarrow> leaves | _ \<Rightarrow> [])"

definition resolve_fetch :: "nat \<Rightarrow> js_error option \<times> feature list option \<Rightarrow> pass \<Rightarrow> pass" where
  "resolve_fetch i r p =
     (if i < length (promises p) \<and> \<not> resolved (promises p ! i)
      then p\<lparr>unclusteredFeatures := unclusteredFeatures p @ leaves_of r,
             promises := (promises p)[i := (promises p ! i)\<lparr>resolved := True\<rparr>]\<rparr>
      else p)"

text \<open>\<^verbatim>\<open>Promise.all(promises)\<close> has resolved when every promise has.\<close>

definition pass_ready :: "pass \<Rightarrow> bool" where
  "pass_ready p = list_all resolved (promises p)"

datatype pass_state = Awaiting pass | Completed

text \<open>
  \<^verbatim>\<open>updateMarkers\<close> up to its first suspension. With clustering it queries the source
  (\<open>features\<close> is what \<^verbatim>\<open>querySourceFeatures\<close> answers), issues the fetches and awaits
  them; without, it builds the candidates from the sessions and runs to its end.
\<close>

definition updateMarkers :: "closure \<Rightarrow> feature list \<Rightarrow> world \<Rightarrow> pass_state \<times> world" where
  "updateMarkers c features w =
     (if c_shouldShowClusters c then (Awaiting (query_pass features), w)
      else (Completed, apply_diff (session_features (c_activeSessions c)) w))"

text \<open>
  What the event loop does to a suspended pass: a leaf callback fires, or the
  continuation of \<^verbatim>\<open>await Promise.all(promises)\<close> is offered the processor, which it
  takes only when every promise has resolved.
\<close>

datatype pass_event = Resolve nat "js_error option \<times> feature list option" | Continue

fun pass_step :: "pass_event \<Rightarrow> pass_state \<times> world \<Rightarrow> pass_state \<times> world" where
  "pass_step ev (Completed, w) = (Completed, w)"
| "pass_step (Resolve i r) (Awaiting p, w) = (Awaiting (resolve_fetch i r p), w)"
| "pass_step Continue (Awaiting p, w) =
     (if pass_ready p then (Completed, apply_diff (unclusteredFeatures p) w)
      else (Awaiting p, w))"

definition run_pass :: "pass_event list \<Rightarrow> pass_state \<times> world \<Rightarrow> pass_state \<times> world" where
  "run_pass evs cfg = fold pass_step evs cfg"

text \<open>Whether a fetch of the pass is still outstanding.\<close>

fun outstanding :: "pass_state \<Rightarrow> bool" where
  "outstanding (Awaiting p) = (\<not> pass_ready p)"
| "outstanding Completed = False"

subsection \<open>The tooltip\<close>

text \<open>
  The effect on \<^verbatim>\<open>currentTime\<close> and \<^verbatim>\<open>handleMapClick\<close> have the same body: an open popup
  is removed and the recorded identifier cleared.
\<close>

definition closeOnTimeChange :: "world \<Rightarrow> world" where
  "closeOnTimeChange w =
     (if popup_created w \<and> popup_open w
      then w\<lparr>popup_open := False, openTooltipSessionId := None\<rparr> else w)"

definition handleMapClick :: "world \<Rightarrow> world" where
  "handleMapClick w =
     (if popup_created w \<and> popup_open w
      then w\<lparr>popup_open := False, openTooltipSessionId := None\<rparr> else w)"

text \<open>
  \<^verbatim>\<open>toggleTooltip\<close> of the marker made for session \<open>s\<close> at \<open>ll\<close> (lines 471 to 586).
\<close>

definition toggleTooltip :: "session \<Rightarrow> lnglat \<Rightarrow> world \<Rightarrow> world" where
  "toggleTooltip s ll w =
     (if \<not> map_current w \<or> \<not> popup_created w then w
      else if popup_open w \<and> openTooltipSessionId w = Some (session_id s)
      then w\<lparr>popup_open := False, openTooltipSessionId := None\<rparr>
      else w\<lparr>popup_open := True, popup_lnglat := Some ll, popup_session := Some s,
             openTooltipSessionId := Some (session_id s)\<rparr>)"

text \<open>A click on the element of the marker at \<open>h\<close> reaches the listener while it is attached.\<close>

definition click_marker :: "nat \<Rightarrow> world \<Rightarrow> world" where
  "click_marker h w =
     (if h < length (store w) \<and> m_listening (store w ! h)
      then toggleTooltip (m_session (store w ! h)) (m_click_lnglat (store w ! h)) w
      else w)"

text \<open>The button \<^verbatim>\<open>View Details\<close> of the popup opened for \<open>s\<close>.\<close>

definition viewDetailsClick :: "session \<Rightarrow> world \<Rightarrow> world" where
  "viewDetailsClick s w =
     w\<lparr>selectedSession := Some s,
       popup_open := (if popup_created w then False else popup_open w),
       openTooltipSessionId := None\<rparr>"

subsection \<open>The effects of the hook\<close>

text \<open>
  The callback of \<^verbatim>\<open>getClusterExpansionZoom\<close> in \<^verbatim>\<open>handleClusterClick\<close>: \<open>features\<close> is
  what \<^verbatim>\<open>queryRenderedFeatures\<close> finds under the click, \<open>r\<close> the pair \<^verbatim>\<open>(err, zoom)\<close>.
\<close>

definition handleClusterClick ::
  "feature list \<Rightarrow> js_error option \<times> real option \<Rightarrow> world \<Rightarrow> world" where
  "handleClusterClick features r w =
     (case features of
        [] \<Rightarrow> w
      | f # _ \<Rightarrow>
          if fst r \<noteq> None \<or> \<not> truthy_num (snd r) then w
          else w\<lparr>camera := (coordinates f, to_number (snd r))\<rparr>)"


text \<open>The initialising effect (lines 173 to 292).\<close>

definition init_effect :: "bool \<Rightarrow> world \<Rightarrow> world" where
  "init_effect mapLoaded w =
     (if \<not> map_current w \<or> \<not> mapLoaded then w
      else w\<lparr>popup_created := True,
             source_data := (if source_added w then source_data w else []),
             source_added := True,
             cluster_handlers := True\<rparr>)"

text \<open>
  The cleanup the main effect returns (lines 620 to 631): all markers are removed, the
  pool is cleared, the four handlers are taken off the map.
\<close>

definition effect_cleanup :: "world \<Rightarrow> world" where
  "effect_cleanup w = (removeAllMarkers w)\<lparr>subscription := None\<rparr>"

text \<open>
  The body of the main effect (lines 295 to 619). The cluster layers exist exactly when
  the source does: the initialising effect adds them together. The second component is
  the pass the effect started, when that pass is suspended.
\<close>

definition timeline_effect ::
  "bool \<Rightarrow> string \<Rightarrow> session list \<Rightarrow> feature list \<Rightarrow> world \<Rightarrow> pass_state \<times> world" where
  "timeline_effect mapLoaded mapView activeSessions features w =
     (if \<not> map_current w \<or> \<not> mapLoaded then (Completed, w)
      else if mapView \<noteq> ''timeline''
      then (Completed,
            removeAllMarkers
              (w\<lparr>clusters_visible := (if source_added w then False else clusters_visible w)\<rparr>))
      else
        let shouldShowClusters = (length activeSessions > 500);
            w1 = w\<lparr>clusters_visible :=
                     (if source_added w then shouldShowClusters else clusters_visible w)\<rparr>
        in if \<not> source_added w then (Completed, w1)
           else
             let w2 = w1\<lparr>source_data := session_features activeSessions\<rparr>;
                 c = \<lparr>c_shouldShowClusters = shouldShowClusters,
                      c_activeSessions = activeSessions\<rparr>;
                 started = updateMarkers c features w2
             in (fst started, (snd started)\<lparr>subscription := Some c\<rparr>))"

text \<open>
  React runs the cleanup that the previous run of an effect returned before it runs the
  effect again for changed dependencies, and once more at unmount. The main effect
  returns its cleanup exactly on the path that subscribes \<^verbatim>\<open>updateMarkers\<close>.
\<close>

definition run_cleanup :: "world \<Rightarrow> world" where
  "run_cleanup w = (case subscription w of None \<Rightarrow> w | Some c \<Rightarrow> effect_cleanup w)"

definition rerun_effect ::
  "bool \<Rightarrow> string \<Rightarrow> session list \<Rightarrow> feature list \<Rightarrow> world \<Rightarrow> pass_state \<times> world" where
  "rerun_effect mapLoaded mapView activeSessions features w =
     timeline_effect mapLoaded mapView activeSessions features (run_cleanup w)"

definition unmount :: "world \<Rightarrow> world" where
  "unmount w = (run_cleanup w)\<lparr>cluster_handlers := False\<rparr>"

text \<open>The map fires zoom, move or sourcedata, or a click on its background.\<close>

definition on_viewport_event :: "feature list \<Rightarrow> world \<Rightarrow> pass_state \<times> world" where
  "on_viewport_event features w =
     (case subscription w of
        None \<Rightarrow> (Completed, w)
      | Some c \<Rightarrow> updateMarkers c features w)"

definition on_map_click :: "world \<Rightarrow> world" where
  "on_map_click w = (case subscription w of None \<Rightarrow> w | Some c \<Rightarrow> handleMapClick w)"

text \<open>The state of a freshly mounted hook over a created map.\<close>

definition mounted :: world where
  "mounted =
     \<lparr>store = [], markersMap = [], map_current = True, popup_created = False,
      popup_open = False, popup_lnglat = None, popup_session = None,
      openTooltipSessionId = None, source_added = False, source_data = [],
      clusters_visible = False, subscription = None, cluster_handlers = False,
      camera = ((0, 0), 0), selectedSession = None\<rparr>"

subsection \<open>The invariant of the pool\<close>

text \<open>
  Every key and every address occurs once in the pool; an address of the pool holds a
  marker that is on the map, listens, and was made for the session of its key; and no
  marker outside the pool listens.
\<close>

definition pool_inv :: "world \<Rightarrow> bool" where
  "pool_inv w \<longleftrightarrow>
     distinct (map fst (markersMap w)) \<and>
     distinct (map snd (markersMap w)) \<and>
     list_all (\<lambda>e. snd e < length (store w) \<and>
                   session_id (m_session (store w ! snd e)) = fst e \<and>
                   m_listening (store w ! snd e) \<and>
                   m_on_map (store w ! snd e)) (markersMap w) \<and>
     list_all (\<lambda>h. m_listening (store w ! h) \<longrightarrow> h \<in> snd ` set (markersMap w))
       [0 ..< length (store w)]"

subsection \<open>The replay of a suspended pass\<close>

text \<open>What an event delivers to the locals of a suspended pass.\<close>

fun deliver :: "pass_event \<Rightarrow> pass \<Rightarrow> pass" where
  "deliver (Resolve i r) p = resolve_fetch i r p"
| "deliver Continue p = p"

subsection \<open>The visible unclustered features\<close>

text \<open>
  What the source answers to \<^verbatim>\<open>getClusterLeaves(cluster_id, point_count, 0, callback)\<close>:
  the pair \<^verbatim>\<open>(err, leaves)\<close> handed to the callback.
\<close>

type_synonym leaf_answer = "nat \<Rightarrow> nat \<Rightarrow> js_error option \<times> feature list option"

text \<open>
  The target of the specification, in its words: the visible unclustered features are
  the unclustered features of the visible set together with the leaves of its small
  clusters, those with a point count below 10. It is stated over the answer of the
  source and does not look at the pass.
\<close>

definition is_point :: "feature \<Rightarrow> bool" where
  "is_point f = (case properties f of Some (PointProps s) \<Rightarrow> True | _ \<Rightarrow> False)"

definition expanded_leaves :: "leaf_answer \<Rightarrow> feature \<Rightarrow> feature list" where
  "expanded_leaves answer f =
     (case properties f of
        Some (ClusterProps cid (Some c)) \<Rightarrow> if c < 10 then leaves_of (answer cid c) else []
      | _ \<Rightarrow> [])"

definition spec_visible_unclustered :: "leaf_answer \<Rightarrow> feature list \<Rightarrow> feature list" where
  "spec_visible_unclustered answer features =
     filter is_point features @ concat (map (expanded_leaves answer) features)"

text \<open>A cluster holds at least one point: no cluster feature has the point count 0.\<close>

definition counted :: "feature \<Rightarrow> bool" where
  "counted f = (case properties f of Some (ClusterProps cid (Some c)) \<Rightarrow> 0 < c | _ \<Rightarrow> True)"

text \<open>
  An event of a pass agrees with the source: the callback of the promise at index \<open>i\<close>
  is handed what the source answers to the request of that promise.
\<close>

definition answers_with :: "leaf_answer \<Rightarrow> fetch list \<Rightarrow> pass_event \<Rightarrow> bool" where
  "answers_with answer reqs ev =
     (case ev of
        Continue \<Rightarrow> True
      | Resolve i r \<Rightarrow>
          i < length reqs \<longrightarrow> r = answer (req_cluster_id (reqs ! i)) (req_limit (reqs ! i)))"

text \<open>
  For the proofs: the fetches one feature gives rise to, the leaves that the resolved
  promises of a pass have delivered, and two lists of promises asking the same.
\<close>

definition requests_of :: "feature \<Rightarrow> fetch list" where
  "requests_of f =
     (case properties f of
        Some (ClusterProps cid (Some c)) \<Rightarrow>
          if c \<noteq> 0 \<and> c < 10
          then [\<lparr>req_cluster_id = cid, req_limit = c, req_offset = 0, resolved = False\<rparr>] else []
      | _ \<Rightarrow> [])"

definition leaves_so_far :: "leaf_answer \<Rightarrow> fetch list \<Rightarrow> feature set" where
  "leaves_so_far answer ps =
     (\<Union>i\<in>{i. i < length ps \<and> resolved (ps ! i)}.
        set (leaves_of (answer (req_cluster_id (ps ! i)) (req_limit (ps ! i)))))"

definition same_requests :: "fetch list \<Rightarrow> fetch list \<Rightarrow> bool" where
  "same_requests ps qs \<longleftrightarrow>
     map (\<lambda>r. (req_cluster_id r, req_limit r)) ps = map (\<lambda>r. (req_cluster_id r, req_limit r)) qs"

subsection \<open>Sample sessions and states\<close>

definition sess_a :: session where
  "sess_a = \<lparr>session_id = ''a'', user_id = ''u1'', lat = Some 2, lon = Some (123456 / 100000)\<rparr>"

definition sess_b :: session where
  "sess_b = \<lparr>session_id = ''b'', user_id = ''u2'', lat = Some (-33.86882), lon = Some 151.20929\<rparr>"

definition sess_equator :: session where
  "sess_equator = \<lparr>session_id = ''e'', user_id = ''u3'', lat = Some 0, lon = Some 36.8219\<rparr>"

definition feat_b :: feature where
  "feat_b = \<lparr>properties = Some (PointProps sess_b), coordinates = (151.2093, -33.8688)\<rparr>"

definition small_cluster :: feature where
  "small_cluster = \<lparr>properties = Some (ClusterProps 7 (Some 3)), coordinates = (10, 20)\<rparr>"

definition big_cluster :: feature where
  "big_cluster = \<lparr>properties = Some (ClusterProps 8 (Some 12)), coordinates = (30, 40)\<rparr>"

definition only_b :: closure where
  "only_b = \<lparr>c_shouldShowClusters = False, c_activeSessions = [sess_b]\<rparr>"

definition no_sessions :: closure where
  "no_sessions = \<lparr>c_shouldShowClusters = False, c_activeSessions = []\<rparr>"

definition clustering :: closure where
  "clustering = \<lparr>c_shouldShowClusters = True, c_activeSessions = replicate 501 sess_b\<rparr>"

definition only_a :: closure where
  "only_a = \<lparr>c_shouldShowClusters = False, c_activeSessions = [sess_a]\<rparr>"

text \<open>
  The state after the effects have run on a loaded map with \<open>a\<close> as the one active session,
  and the same with the marker of \<open>b\<close> in place of that of \<open>a\<close>.
\<close>

definition world_a :: world where
  "world_a =
     mounted\<lparr>store := [new_marker sess_a (1.2346, 2)], markersMap := [(''a'', 0)],
             popup_created := True, source_added := True,
             source_data := [\<lparr>properties = Some (PointProps sess_a), coordinates = (1.2346, 2)\<rparr>],
             subscription := Some only_a, cluster_handlers := True\<rparr>"

definition world_b :: world where
  "world_b =
     world_a\<lparr>store := [(new_marker sess_a (1.2346, 2))\<lparr>m_listening := False, m_on_map := False\<rparr>,
                       new_marker sess_b (151.2093, -33.8688)],
             markersMap := [(''b'', 1)]\<rparr>"

text \<open>The state after the effects have run with both sessions active.\<close>

definition both :: closure where
  "both = \<lparr>c_shouldShowClusters = False, c_activeSessions = [sess_a, sess_b]\<rparr>"

definition world_ab :: world where
  "world_ab =
     mounted\<lparr>store := [new_marker sess_a (1.2346, 2), new_marker sess_b (151.2093, -33.8688)],
             markersMap := [(''a'', 0), (''b'', 1)],
             popup_created := True, source_added := True,
             source_data := [\<lparr>properties = Some (PointProps sess_a), coordinates = (1.2346, 2)\<rparr>,
                             feat_b],
             subscription := Some both, cluster_handlers := True\<rparr>"

text \<open>
  The state after the effects have run on a loaded map with 501 active sessions: the
  clusters are shown, the pool is still empty, the first pass is suspended.
\<close>

definition world_c :: world where
  "world_c =
     mounted\<lparr>popup_created := True, source_added := True,
             source_data := session_features (replicate 501 sess_b),
             clusters_visible := True,
             subscription := Some clustering, cluster_handlers := True\<rparr>"

subsection \<open>The states the hook can reach\<close>

text \<open>
  The events that change the state of a mounted hook: the effects run, the map fires a
  viewport event or a click, a suspended pass takes a step, the time cursor moves, a marker,
  the details button or a cluster is clicked, the hook unmounts. The passes in flight are
  not tracked: a step of any pass is allowed, which only adds states.
\<close>

inductive reachable :: "world \<Rightarrow> bool" where
  r_mounted: "reachable mounted"
| r_init: "reachable w \<Longrightarrow> reachable (init_effect mapLoaded w)"
| r_effect: "reachable w \<Longrightarrow>
     reachable (snd (rerun_effect mapLoaded mapView activeSessions features w))"
| r_viewport: "reachable w \<Longrightarrow> reachable (snd (on_viewport_event features w))"
| r_pass: "reachable w \<Longrightarrow> reachable (snd (pass_step ev (st, w)))"
| r_time: "reachable w \<Longrightarrow> reachable (closeOnTimeChange w)"
| r_map_click: "reachable w \<Longrightarrow> reachable (on_map_click w)"
| r_marker_click: "reachable w \<Longrightarrow> reachable (click_marker h w)"
| r_details: "reachable w \<Longrightarrow> popup_open w \<Longrightarrow> popup_session w = Some s \<Longrightarrow>
     reachable (viewDetailsClick s w)"
| r_cluster_click: "reachable w \<Longrightarrow> cluster_handlers w \<Longrightarrow>
     reachable (handleClusterClick features r w)"
| r_unmount: "reachable w \<Longrightarrow> reachable (unmount w)"

text \<open>
  A source that answers every leaf query with the one leaf \<open>b\<close>; session \<open>a\<close> reported
  at another coordinate; the state with both sessions after a pass has moved the marker
  of \<open>a\<close> there; and the state with both sessions before any marker was made.
\<close>

definition leaves_b :: leaf_answer where
  "leaves_b cid c = (None, Some [feat_b])"

definition feat_a_moved :: feature where
  "feat_a_moved = \<lparr>properties = Some (PointProps sess_a), coordinates = (3, 4)\<rparr>"

definition world_moved :: world where
  "world_moved =
     world_ab\<lparr>store := [(new_marker sess_a (1.2346, 2))\<lparr>m_lnglat := (3, 4)\<rparr>,
                        new_marker sess_b (151.2093, -33.8688)]\<rparr>"

definition world_empty :: world where
  "world_empty = world_ab\<lparr>store := [], markersMap := []\<rparr>"

subsection \<open>What follows a state\<close>

text \<open>
  \<open>later w w'\<close>: the state \<open>w'\<close> comes after \<open>w\<close>. The store and the pool change only by
  the removal pass, by a round of the create-or-update loop and by the loop that clears
  the pool; whatever else happens leaves both as they are. Every event of the hook is
  made of such steps.
\<close>

inductive later :: "world \<Rightarrow> world \<Rightarrow> bool" where
  l_refl: "later w w"
| l_removal: "later w w' \<Longrightarrow> later w (removal_pass ids w')"
| l_upsert: "later w w' \<Longrightarrow> later w (upsert g w')"
| l_clear: "later w w' \<Longrightarrow> later w (removeAllMarkers w')"
| l_other: "later w w' \<Longrightarrow> store w'' = store w' \<Longrightarrow> markersMap w'' = markersMap w' \<Longrightarrow>
     later w w''"

section \<open>Facts about the pool and the store\<close>

lemma fold_pool_delete:
  "fold (\<lambda>e. pool_delete (fst e)) rs pool = filter (\<lambda>e. fst e \<notin> fst ` set rs) pool"
  by (induction rs arbitrary: pool) (auto simp: pool_delete_def intro: filter_cong)

lemma removal_pass_pool:
  "markersMap (removal_pass ids w) = filter (\<lambda>e. fst e \<in> set ids) (markersMap w)"
  unfolding removal_pass_def Let_def
  by (simp add: fold_pool_delete) (rule filter_cong, auto simp: image_iff)

lemma length_upd_marker [simp]: "length (upd_marker h f ms) = length ms"
  by (simp add: upd_marker_def)

lemma length_destroy_marker [simp]: "length (destroy_marker h ms) = length ms"
  by (simp add: destroy_marker_def)

lemma length_fold_destroy [simp]:
  "length (fold (\<lambda>e. destroy_marker (snd e)) rs ms) = length ms"
  by (induction rs arbitrary: ms) auto

lemma nth_destroy_marker:
  "i < length ms \<Longrightarrow>
   destroy_marker h ms ! i =
     (if i = h then (ms ! i)\<lparr>m_listening := False, m_on_map := False\<rparr> else ms ! i)"
  by (simp add: destroy_marker_def upd_marker_def)

lemma nth_fold_destroy:
  "i < length ms \<Longrightarrow>
   fold (\<lambda>e. destroy_marker (snd e)) rs ms ! i =
     (if i \<in> snd ` set rs then (ms ! i)\<lparr>m_listening := False, m_on_map := False\<rparr> else ms ! i)"
  by (induction rs arbitrary: ms) (auto simp: nth_destroy_marker)

lemma length_store_removal_pass [simp]:
  "length (store (removal_pass ids w)) = length (store w)"
  by (simp add: removal_pass_def Let_def)

lemma pool_get_None: "pool_get k pool = None \<longleftrightarrow> k \<notin> fst ` set pool"
  by (simp add: pool_get_def map_of_eq_None_iff)

lemma pool_get_Some: "distinct (map fst pool) \<Longrightarrow> pool_get k pool = Some h \<longleftrightarrow> (k, h) \<in> set pool"
  by (simp add: pool_get_def)

lemma pool_set_fresh: "k \<notin> fst ` set pool \<Longrightarrow> pool_set k v pool = pool @ [(k, v)]"
  by (induction pool) auto

lemma pool_inv_iff:
  "pool_inv w \<longleftrightarrow>
     distinct (map fst (markersMap w)) \<and>
     distinct (map snd (markersMap w)) \<and>
     (\<forall>e\<in>set (markersMap w). snd e < length (store w) \<and>
                   session_id (m_session (store w ! snd e)) = fst e \<and>
                   m_listening (store w ! snd e) \<and>
                   m_on_map (store w ! snd e)) \<and>
     (\<forall>h<length (store w). m_listening (store w ! h) \<longrightarrow> h \<in> snd ` set (markersMap w))"
  by (auto simp: pool_inv_def list_all_iff)

lemma store_removal_pass:
  "store (removal_pass ids w) =
     fold (\<lambda>e. destroy_marker (snd e)) (filter (\<lambda>e. fst e \<notin> set ids) (markersMap w)) (store w)"
  by (simp add: removal_pass_def Let_def)

lemma distinct_snd_eq:
  "distinct (map snd pool) \<Longrightarrow> e \<in> set pool \<Longrightarrow> e' \<in> set pool \<Longrightarrow> snd e = snd e' \<Longrightarrow> e = e'"
  by (meson distinct_map inj_onD)

lemma pool_inv_removal_pass:
  assumes "pool_inv w"
  shows "pool_inv (removal_pass ids w)"
proof -
  let ?rs = "filter (\<lambda>e. fst e \<notin> set ids) (markersMap w)"
  from assms have dk: "distinct (map fst (markersMap w))"
    and dh: "distinct (map snd (markersMap w))"
    and ent: "\<And>e. e \<in> set (markersMap w) \<Longrightarrow> snd e < length (store w) \<and>
                   session_id (m_session (store w ! snd e)) = fst e \<and>
                   m_listening (store w ! snd e) \<and> m_on_map (store w ! snd e)"
    and lst: "\<And>h. h < length (store w) \<Longrightarrow> m_listening (store w ! h) \<Longrightarrow>
                   h \<in> snd ` set (markersMap w)"
    by (auto simp: pool_inv_iff)
  have keep: "store (removal_pass ids w) ! snd e = store w ! snd e"
    if "e \<in> set (markersMap w)" "fst e \<in> set ids" for e
  proof -
    have "snd e \<notin> snd ` set ?rs"
    proof
      assume "snd e \<in> snd ` set ?rs"
      then obtain e' where e': "e' \<in> set (markersMap w)" "fst e' \<notin> set ids" "snd e = snd e'"
        by auto
      with that dh have "e = e'" by (meson distinct_snd_eq)
      with e' that show False by simp
    qed
    with ent[OF that(1)] show ?thesis
      by (simp add: store_removal_pass nth_fold_destroy)
  qed
  have 1: "distinct (map fst (markersMap (removal_pass ids w)))"
    using dk by (simp add: removal_pass_pool distinct_map_filter)
  have 2: "distinct (map snd (markersMap (removal_pass ids w)))"
    using dh by (simp add: removal_pass_pool distinct_map_filter)
  have 3: "\<forall>e\<in>set (markersMap (removal_pass ids w)).
             snd e < length (store (removal_pass ids w)) \<and>
             session_id (m_session (store (removal_pass ids w) ! snd e)) = fst e \<and>
             m_listening (store (removal_pass ids w) ! snd e) \<and>
             m_on_map (store (removal_pass ids w) ! snd e)"
    using ent keep by (auto simp: removal_pass_pool)
  have 4: "\<forall>h<length (store (removal_pass ids w)).
             m_listening (store (removal_pass ids w) ! h) \<longrightarrow>
             h \<in> snd ` set (markersMap (removal_pass ids w))"
  proof (intro allI impI)
    fix h assume h: "h < length (store (removal_pass ids w))"
      and l: "m_listening (store (removal_pass ids w) ! h)"
    from h have h': "h < length (store w)" by simp
    from l h' have nr: "h \<notin> snd ` set ?rs" and l': "m_listening (store w ! h)"
      by (auto simp: store_removal_pass nth_fold_destroy split: if_splits)
    from lst[OF h' l'] obtain e where e: "e \<in> set (markersMap w)" "h = snd e" by auto
    with nr have "fst e \<in> set ids" by force
    with e show "h \<in> snd ` set (markersMap (removal_pass ids w))"
      by (auto simp: removal_pass_pool)
  qed
  from 1 2 3 4 show ?thesis by (simp add: pool_inv_iff)
qed

lemma pool_inv_removeAllMarkers:
  assumes "pool_inv w"
  shows "pool_inv (removeAllMarkers w)"
proof -
  have "\<not> m_listening (store (removeAllMarkers w) ! h)" if "h < length (store w)" for h
  proof (cases "h \<in> snd ` set (markersMap w)")
    case True
    with that show ?thesis by (simp add: removeAllMarkers_def nth_fold_destroy)
  next
    case False
    with assms that have "\<not> m_listening (store w ! h)" by (auto simp: pool_inv_iff)
    with False that show ?thesis by (simp add: removeAllMarkers_def nth_fold_destroy)
  qed
  then show ?thesis by (simp add: pool_inv_iff removeAllMarkers_def)
qed


lemma upd_marker_lnglat_same:
  "h < length ms \<Longrightarrow> m_lnglat (ms ! h) = ll \<Longrightarrow> upd_marker h (\<lambda>m. m\<lparr>m_lnglat := ll\<rparr>) ms = ms"
  by (auto simp: upd_marker_def list_update_same_conv)

lemma upsert_skip:
  "feature_session_id f = None \<or> (\<exists>k. feature_session_id f = Some k \<and> \<not> truthy_str k)
   \<Longrightarrow> upsert f w = w"
  by (auto simp: upsert_def feature_session_id_def split: option.splits properties.splits)

lemma upsert_move:
  assumes "properties f = Some (PointProps s)" "truthy_str (session_id s)"
    "pool_get (session_id s) (markersMap w) = Some h"
  shows "upsert f w = w\<lparr>store := upd_marker h (\<lambda>m. m\<lparr>m_lnglat := coordinates f\<rparr>) (store w)\<rparr>"
proof (cases "h < length (store w) \<and> m_lnglat (store w ! h) \<noteq> coordinates f")
  case True
  with assms show ?thesis by (simp add: upsert_def)
next
  case False
  then have "upd_marker h (\<lambda>m. m\<lparr>m_lnglat := coordinates f\<rparr>) (store w) = store w"
    by (cases "h < length (store w)") (auto simp: upd_marker_lnglat_same, simp add: upd_marker_def)
  with False assms show ?thesis by (simp add: upsert_def)
qed

lemma upsert_create:
  assumes "properties f = Some (PointProps s)" "truthy_str (session_id s)"
    "pool_get (session_id s) (markersMap w) = None"
  shows "upsert f w = w\<lparr>store := store w @ [new_marker s (coordinates f)],
                        markersMap := markersMap w @ [(session_id s, length (store w))]\<rparr>"
proof -
  from assms(3) have "session_id s \<notin> fst ` set (markersMap w)"
    by (simp add: pool_get_None)
  then have "pool_set (session_id s) (length (store w)) (markersMap w) =
             markersMap w @ [(session_id s, length (store w))]"
    by (rule pool_set_fresh)
  with assms show ?thesis by (simp add: upsert_def)
qed

lemma upsert_cases:
  obtains (skip) "upsert f w = w"
      "feature_session_id f = None \<or> (\<exists>k. feature_session_id f = Some k \<and> \<not> truthy_str k)"
  | (move) s h where "properties f = Some (PointProps s)" "truthy_str (session_id s)"
      "pool_get (session_id s) (markersMap w) = Some h"
      "upsert f w = w\<lparr>store := upd_marker h (\<lambda>m. m\<lparr>m_lnglat := coordinates f\<rparr>) (store w)\<rparr>"
  | (create) s where "properties f = Some (PointProps s)" "truthy_str (session_id s)"
      "pool_get (session_id s) (markersMap w) = None"
      "upsert f w = w\<lparr>store := store w @ [new_marker s (coordinates f)],
                        markersMap := markersMap w @ [(session_id s, length (store w))]\<rparr>"
proof (cases "properties f")
  case None
  then show ?thesis using skip by (simp add: upsert_skip feature_session_id_def)
next
  case (Some p)
  show ?thesis
  proof (cases p)
    case (ClusterProps c n)
    with Some show ?thesis using skip by (simp add: upsert_skip feature_session_id_def)
  next
    case (PointProps s)
    show ?thesis
    proof (cases "truthy_str (session_id s)")
      case False
      with Some PointProps show ?thesis using skip
        by (simp add: upsert_skip feature_session_id_def)
    next
      case True
      show ?thesis
      proof (cases "pool_get (session_id s) (markersMap w)")
        case None
        with Some PointProps True show ?thesis using create upsert_create by blast
      next
        case (Some h)
        with \<open>properties f = Some p\<close> PointProps True show ?thesis
          using move upsert_move by blast
      qed
    qed
  qed
qed

lemma nth_upd_marker:
  "i < length ms \<Longrightarrow> upd_marker h g ms ! i = (if i = h then g (ms ! i) else ms ! i)"
  by (simp add: upd_marker_def)

lemma pool_inv_upsert:
  assumes "pool_inv w"
  shows "pool_inv (upsert f w)"
proof (cases rule: upsert_cases[of f w])
  case skip
  with assms show ?thesis by simp
next
  case (move s h)
  with assms show ?thesis
    by (auto simp: pool_inv_iff nth_upd_marker)
next
  case (create s)
  from assms have ent: "\<And>e. e \<in> set (markersMap w) \<Longrightarrow> snd e < length (store w)"
    by (auto simp: pool_inv_iff)
  then have fresh: "length (store w) \<notin> snd ` set (markersMap w)" by fastforce
  from create(3) have nk: "session_id s \<notin> fst ` set (markersMap w)"
    by (simp add: pool_get_None)
  show ?thesis
    unfolding pool_inv_iff create(4)
    using assms fresh nk
    by (auto simp: pool_inv_iff nth_append new_marker_def less_Suc_eq)
qed

lemma pool_inv_fold_upsert: "pool_inv w \<Longrightarrow> pool_inv (fold upsert fs w)"
  by (induction fs arbitrary: w) (auto simp: pool_inv_upsert)

lemma pool_inv_apply_diff: "pool_inv w \<Longrightarrow> pool_inv (apply_diff fs w)"
  by (simp add: apply_diff_def pool_inv_fold_upsert pool_inv_removal_pass)

lemma set_currentSessionIds:
  "set (currentSessionIds fs) = {k. truthy_str k \<and> (\<exists>f\<in>set fs. feature_session_id f = Some k)}"
  by (induction fs) (auto simp: currentSessionIds_def split: option.splits)

lemma keys_upsert:
  "fst ` set (markersMap (upsert f w)) = fst ` set (markersMap w) \<union> set (currentSessionIds [f])"
proof (cases rule: upsert_cases[of f w])
  case skip
  then show ?thesis by (auto simp: set_currentSessionIds)
next
  case (move s h)
  then have "session_id s \<in> fst ` set (markersMap w)"
    using pool_get_None[of "session_id s" "markersMap w"] by auto
  with move show ?thesis by (auto simp: set_currentSessionIds feature_session_id_def)
next
  case (create s)
  then show ?thesis by (auto simp: set_currentSessionIds feature_session_id_def)
qed

lemma keys_fold_upsert:
  "fst ` set (markersMap (fold upsert fs w)) = fst ` set (markersMap w) \<union> set (currentSessionIds fs)"
proof (induction fs arbitrary: w)
  case Nil
  show ?case by (simp add: set_currentSessionIds)
next
  case (Cons f fs)
  show ?case by (auto simp: Cons.IH keys_upsert set_currentSessionIds)
qed

lemma keys_apply_diff:
  "fst ` set (markersMap (apply_diff fs w)) = set (currentSessionIds fs)"
  by (auto simp: apply_diff_def keys_fold_upsert removal_pass_pool)

lemma length_store_upsert: "length (store w) \<le> length (store (upsert f w))"
  by (cases rule: upsert_cases[of f w]) auto

lemma upsert_frame:
  assumes "h < length (store w)"
  shows "m_listening (store (upsert f w) ! h) = m_listening (store w ! h)"
    and "m_on_map (store (upsert f w) ! h) = m_on_map (store w ! h)"
    and "m_session (store (upsert f w) ! h) = m_session (store w ! h)"
    and "m_click_lnglat (store (upsert f w) ! h) = m_click_lnglat (store w ! h)"
  using assms by (cases rule: upsert_cases[of f w]; simp add: nth_upd_marker nth_append)+

lemma fold_upsert_frame:
  assumes "h < length (store w)"
  shows "h < length (store (fold upsert fs w)) \<and>
         m_listening (store (fold upsert fs w) ! h) = m_listening (store w ! h) \<and>
         m_on_map (store (fold upsert fs w) ! h) = m_on_map (store w ! h) \<and>
         m_session (store (fold upsert fs w) ! h) = m_session (store w ! h) \<and>
         m_click_lnglat (store (fold upsert fs w) ! h) = m_click_lnglat (store w ! h)"
  using assms
proof (induction fs arbitrary: w)
  case Nil
  then show ?case by simp
next
  case (Cons f fs)
  from Cons.prems length_store_upsert[of w f] have "h < length (store (upsert f w))" by simp
  from Cons.IH[OF this] Cons.prems show ?case by (simp add: upsert_frame)
qed

lemma removal_pass_destroys:
  assumes "pool_inv w" "e \<in> set (markersMap w)" "fst e \<notin> set ids"
  shows "\<not> m_listening (store (removal_pass ids w) ! snd e)"
    and "\<not> m_on_map (store (removal_pass ids w) ! snd e)"
proof -
  from assms have "snd e < length (store w)" by (auto simp: pool_inv_iff)
  moreover from assms have "snd e \<in> snd ` set (filter (\<lambda>e. fst e \<notin> set ids) (markersMap w))"
    by auto
  ultimately show "\<not> m_listening (store (removal_pass ids w) ! snd e)"
    and "\<not> m_on_map (store (removal_pass ids w) ! snd e)"
    by (simp_all add: store_removal_pass nth_fold_destroy)
qed

lemma apply_diff_destroys:
  assumes "pool_inv w" "e \<in> set (markersMap w)" "fst e \<notin> set (currentSessionIds fs)"
  shows "\<not> m_listening (store (apply_diff fs w) ! snd e) \<and>
         \<not> m_on_map (store (apply_diff fs w) ! snd e)"
proof -
  from assms have "snd e < length (store (removal_pass (currentSessionIds fs) w))"
    by (auto simp: pool_inv_iff)
  from fold_upsert_frame[OF this, of fs] removal_pass_destroys[OF assms]
  show ?thesis by (simp add: apply_diff_def)
qed

lemma fold_upsert_position:
  assumes "pool_inv w" "e \<in> set (markersMap (fold upsert fs w))"
  shows "(fst e \<in> set (currentSessionIds fs) \<and>
          (\<exists>f\<in>set fs. feature_session_id f = Some (fst e) \<and>
             m_lnglat (store (fold upsert fs w) ! snd e) = coordinates f)) \<or>
         (fst e \<notin> set (currentSessionIds fs) \<and> e \<in> set (markersMap w) \<and>
          store (fold upsert fs w) ! snd e = store w ! snd e)"
  using assms(2)
proof (induction fs arbitrary: e rule: rev_induct)
  case Nil
  then show ?case by (simp add: set_currentSessionIds)
next
  case (snoc f fs)
  let ?w = "fold upsert fs w"
  have inv: "pool_inv ?w" using assms(1) by (rule pool_inv_fold_upsert)
  have ids: "set (currentSessionIds (fs @ [f])) = set (currentSessionIds fs) \<union> set (currentSessionIds [f])"
    by (auto simp: set_currentSessionIds)
  from snoc.prems have e: "e \<in> set (markersMap (upsert f ?w))" by simp
  show ?case
  proof (cases rule: upsert_cases[of f ?w])
    case skip
    then have "set (currentSessionIds [f]) = {}" by (auto simp: set_currentSessionIds)
    with skip e snoc.IH[of e] ids show ?thesis by auto
  next
    case (move s h)
    from move(3) inv have mem: "(session_id s, h) \<in> set (markersMap ?w)"
      by (simp add: pool_get_Some pool_inv_iff)
    with inv have hl: "h < length (store ?w)" by (auto simp: pool_inv_iff)
    from move e have e': "e \<in> set (markersMap ?w)" by simp
    have idf: "feature_session_id f = Some (session_id s)"
      using move(1) by (simp add: feature_session_id_def)
    show ?thesis
    proof (cases "snd e = h")
      case True
      with mem e' inv have "e = (session_id s, h)"
        using distinct_snd_eq[of "markersMap ?w" e "(session_id s, h)"] by (simp add: pool_inv_iff)
      with move hl idf show ?thesis
        by (auto simp: set_currentSessionIds nth_upd_marker)
    next
      case False
      from e' inv have el: "snd e < length (store ?w)" by (auto simp: pool_inv_iff)
      have ne: "fst e \<noteq> session_id s"
      proof
        assume "fst e = session_id s"
        with e' mem inv have "e = (session_id s, h)"
          by (metis eq_key_imp_eq_value pool_inv_iff prod.collapse)
        with False show False by simp
      qed
      from False el move have same: "store (upsert f ?w) ! snd e = store ?w ! snd e"
        by (simp add: nth_upd_marker)
      from ne idf have "fst e \<notin> set (currentSessionIds [f])"
        by (auto simp: set_currentSessionIds)
      with snoc.IH[OF e'] same ids show ?thesis by auto
    qed
  next
    case (create s)
    have idf: "feature_session_id f = Some (session_id s)"
      using create(1) by (simp add: feature_session_id_def)
    from create e consider "e = (session_id s, length (store ?w))" | "e \<in> set (markersMap ?w)"
      by auto
    then show ?thesis
    proof cases
      case 1
      with create idf show ?thesis
        by (auto simp: set_currentSessionIds new_marker_def)
    next
      case 2
      with inv have el: "snd e < length (store ?w)" by (auto simp: pool_inv_iff)
      from create(3) 2 have ne: "fst e \<noteq> session_id s"
        by (force simp: pool_get_None)
      from el create have same: "store (upsert f ?w) ! snd e = store ?w ! snd e"
        by (simp add: nth_append)
      from ne idf have "fst e \<notin> set (currentSessionIds [f])"
        by (auto simp: set_currentSessionIds)
      with snoc.IH[OF 2] same ids show ?thesis by auto
    qed
  qed
qed

lemma apply_diff_position:
  assumes "pool_inv w" "e \<in> set (markersMap (apply_diff fs w))"
  shows "\<exists>f\<in>set fs. feature_session_id f = Some (fst e) \<and>
           m_lnglat (store (apply_diff fs w) ! snd e) = coordinates f"
proof -
  from assms(2) have "fst e \<in> set (currentSessionIds fs)"
    using keys_apply_diff[of fs w] by auto
  with fold_upsert_position[OF pool_inv_removal_pass[OF assms(1)], of e fs "currentSessionIds fs"]
    assms(2)
  show ?thesis by (auto simp: apply_diff_def)
qed

lemmas sample_defs =
  sess_a_def sess_b_def sess_equator_def feat_b_def small_cluster_def big_cluster_def
  only_b_def no_sessions_def clustering_def world_a_def world_b_def mounted_def
  only_a_def world_c_def

lemmas model_defs =
  updateMarkers_def apply_diff_def removal_pass_def currentSessionIds_def
  session_features_def session_feature_def has_coords_def truthy_num_def truthy_str_def
  to_number_def round4_def feature_session_id_def upsert_def pool_get_def pool_delete_def
  destroy_marker_def upd_marker_def new_marker_def

lemmas diff_defs =
  apply_diff_def removal_pass_def currentSessionIds_def feature_session_id_def upsert_def
  truthy_str_def pool_get_def pool_delete_def destroy_marker_def upd_marker_def new_marker_def

lemma pool_inv_world_a: "pool_inv world_a"
  by (simp add: pool_inv_def sample_defs new_marker_def)

lemma updateMarkers_only_b: "updateMarkers only_b [] world_a = (Completed, world_b)"
  by (simp add: model_defs sample_defs)

lemma upsert_tooltip:
  "popup_open (upsert f w) = popup_open w \<and>
   openTooltipSessionId (upsert f w) = openTooltipSessionId w \<and>
   popup_lnglat (upsert f w) = popup_lnglat w \<and>
   popup_session (upsert f w) = popup_session w"
  by (cases rule: upsert_cases[of f w]) auto

lemma fold_upsert_tooltip:
  "popup_open (fold upsert fs w) = popup_open w \<and>
   openTooltipSessionId (fold upsert fs w) = openTooltipSessionId w \<and>
   popup_lnglat (fold upsert fs w) = popup_lnglat w \<and>
   popup_session (fold upsert fs w) = popup_session w"
  by (induction fs arbitrary: w) (simp_all add: upsert_tooltip)

lemma apply_diff_tooltip:
  "popup_open (apply_diff fs w) = popup_open w \<and>
   openTooltipSessionId (apply_diff fs w) = openTooltipSessionId w \<and>
   popup_lnglat (apply_diff fs w) = popup_lnglat w \<and>
   popup_session (apply_diff fs w) = popup_session w"
  by (simp add: apply_diff_def fold_upsert_tooltip removal_pass_def Let_def)

lemma removeAllMarkers_tooltip:
  "popup_open (removeAllMarkers w) = popup_open w \<and>
   openTooltipSessionId (removeAllMarkers w) = openTooltipSessionId w"
  by (simp add: removeAllMarkers_def)

lemma run_cleanup_tooltip:
  "popup_open (run_cleanup w) = popup_open w \<and>
   openTooltipSessionId (run_cleanup w) = openTooltipSessionId w"
  by (simp add: run_cleanup_def effect_cleanup_def removeAllMarkers_def split: option.splits)



lemma markersMap_removeAllMarkers [simp]: "markersMap (removeAllMarkers w) = []"
  by (simp add: removeAllMarkers_def)

lemma length_store_removeAllMarkers [simp]:
  "length (store (removeAllMarkers w)) = length (store w)"
  by (simp add: removeAllMarkers_def)


lemma removeAllMarkers_empty: "markersMap w = [] \<Longrightarrow> removeAllMarkers w = w"
  by (simp add: removeAllMarkers_def)




subsection \<open>Facts about suspended passes\<close>

lemma run_pass_Completed_start [simp]: "run_pass evs (Completed, w) = (Completed, w)"
  by (induction evs) (simp_all add: run_pass_def)

lemma run_pass_Cons [simp]: "run_pass (ev # evs) cfg = run_pass evs (pass_step ev cfg)"
  by (simp add: run_pass_def)

lemma run_pass_Nil [simp]: "run_pass [] cfg = cfg"
  by (simp add: run_pass_def)

lemma pass_step_Awaiting:
  "pass_step ev (Awaiting p, w) = (Awaiting (deliver ev p), w) \<or>
   (ev = Continue \<and> pass_ready p \<and>
    pass_step ev (Awaiting p, w) = (Completed, apply_diff (unclusteredFeatures p) w))"
  by (cases ev) auto

lemma run_pass_still_awaiting:
  "run_pass evs (Awaiting p, w) = (Awaiting p', w') \<Longrightarrow> w' = w \<and> p' = fold deliver evs p"
proof (induction evs arbitrary: p)
  case Nil
  then show ?case by simp
next
  case (Cons ev evs)
  from pass_step_Awaiting[of ev p w] show ?case
  proof
    assume "pass_step ev (Awaiting p, w) = (Awaiting (deliver ev p), w)"
    with Cons show ?thesis by simp
  next
    assume "ev = Continue \<and> pass_ready p \<and>
      pass_step ev (Awaiting p, w) = (Completed, apply_diff (unclusteredFeatures p) w)"
    with Cons.prems show ?thesis by simp
  qed
qed

lemma run_pass_completed:
  "run_pass evs (Awaiting p, w) = (Completed, w') \<Longrightarrow>
   \<exists>n<length evs. evs ! n = Continue \<and> pass_ready (fold deliver (take n evs) p) \<and>
      w' = apply_diff (unclusteredFeatures (fold deliver (take n evs) p)) w"
proof (induction evs arbitrary: p)
  case Nil
  then show ?case by simp
next
  case (Cons ev evs)
  from pass_step_Awaiting[of ev p w] show ?case
  proof
    assume a: "pass_step ev (Awaiting p, w) = (Awaiting (deliver ev p), w)"
    with Cons.prems have "run_pass evs (Awaiting (deliver ev p), w) = (Completed, w')" by simp
    from Cons.IH[OF this] obtain n where n: "n < length evs" "evs ! n = Continue"
      "pass_ready (fold deliver (take n evs) (deliver ev p))"
      "w' = apply_diff (unclusteredFeatures (fold deliver (take n evs) (deliver ev p))) w"
      by blast
    then have "Suc n < length (ev # evs) \<and> (ev # evs) ! Suc n = Continue \<and>
      pass_ready (fold deliver (take (Suc n) (ev # evs)) p) \<and>
      w' = apply_diff (unclusteredFeatures (fold deliver (take (Suc n) (ev # evs)) p)) w"
      by simp
    then show ?thesis by blast
  next
    assume a: "ev = Continue \<and> pass_ready p \<and>
      pass_step ev (Awaiting p, w) = (Completed, apply_diff (unclusteredFeatures p) w)"
    with Cons.prems have "w' = apply_diff (unclusteredFeatures p) w" by simp
    with a have "0 < length (ev # evs) \<and> (ev # evs) ! 0 = Continue \<and>
      pass_ready (fold deliver (take 0 (ev # evs)) p) \<and>
      w' = apply_diff (unclusteredFeatures (fold deliver (take 0 (ev # evs)) p)) w"
      by simp
    then show ?thesis by blast
  qed
qed

lemmas pass_defs = query_pass_def process_feature_def resolve_fetch_def leaves_of_def pass_ready_def

lemma query_small: "query_pass [small_cluster] =
  \<lparr>unclusteredFeatures = [],
   promises = [\<lparr>req_cluster_id = 7, req_limit = 3, req_offset = 0, resolved = False\<rparr>]\<rparr>"
  by (simp add: pass_defs small_cluster_def)



text \<open>
  A marker made by a pass without clustering answers clicks with the session it was made
  for and with that session's rounded coordinate.
\<close>

lemma created_marker_click_position:
  "m_click_lnglat (new_marker s (coordinates (session_feature s))) =
     (round4 (to_number (lon s)), round4 (to_number (lat s))) \<and>
   m_session (new_marker s (coordinates (session_feature s))) = s"
  by (simp add: new_marker_def session_feature_def)

subsection \<open>The invariant holds in every reachable state\<close>

lemma pool_inv_cong:
  "store w' = store w \<Longrightarrow> markersMap w' = markersMap w \<Longrightarrow> pool_inv w' = pool_inv w"
  by (simp add: pool_inv_def)

lemma pool_inv_mounted: "pool_inv mounted"
  by (simp add: pool_inv_def mounted_def)

lemma pool_inv_init_effect: "pool_inv w \<Longrightarrow> pool_inv (init_effect l w)"
  by (simp add: init_effect_def pool_inv_def)

lemma pool_inv_toggleTooltip: "pool_inv w \<Longrightarrow> pool_inv (toggleTooltip s ll w)"
  by (simp add: toggleTooltip_def pool_inv_def)

lemma pool_inv_click_marker: "pool_inv w \<Longrightarrow> pool_inv (click_marker h w)"
  by (simp add: click_marker_def pool_inv_toggleTooltip)

lemma pool_inv_closeOnTimeChange: "pool_inv w \<Longrightarrow> pool_inv (closeOnTimeChange w)"
  by (simp add: closeOnTimeChange_def pool_inv_def)

lemma pool_inv_handleMapClick: "pool_inv w \<Longrightarrow> pool_inv (handleMapClick w)"
  by (simp add: handleMapClick_def pool_inv_def)

lemma pool_inv_on_map_click: "pool_inv w \<Longrightarrow> pool_inv (on_map_click w)"
  by (simp add: on_map_click_def pool_inv_handleMapClick split: option.splits)

lemma pool_inv_viewDetailsClick: "pool_inv w \<Longrightarrow> pool_inv (viewDetailsClick s w)"
  by (simp add: viewDetailsClick_def pool_inv_def)

lemma pool_inv_handleClusterClick: "pool_inv w \<Longrightarrow> pool_inv (handleClusterClick fs r w)"
  by (simp add: handleClusterClick_def pool_inv_def split: list.splits)

lemma pool_inv_effect_cleanup: "pool_inv w \<Longrightarrow> pool_inv (effect_cleanup w)"
  using pool_inv_removeAllMarkers[of w]
  by (simp add: effect_cleanup_def pool_inv_cong[of "(removeAllMarkers w)\<lparr>subscription := None\<rparr>"])

lemma pool_inv_run_cleanup: "pool_inv w \<Longrightarrow> pool_inv (run_cleanup w)"
  by (simp add: run_cleanup_def pool_inv_effect_cleanup split: option.splits)

lemma pool_inv_unmount: "pool_inv w \<Longrightarrow> pool_inv (unmount w)"
  using pool_inv_run_cleanup[of w]
  by (simp add: unmount_def pool_inv_cong[of "(run_cleanup w)\<lparr>cluster_handlers := False\<rparr>"])

lemma pool_inv_updateMarkers: "pool_inv w \<Longrightarrow> pool_inv (snd (updateMarkers c fs w))"
  by (simp add: updateMarkers_def pool_inv_apply_diff)

lemma pool_inv_pass_step: "pool_inv w \<Longrightarrow> pool_inv (snd (pass_step ev (st, w)))"
  by (cases "(ev, (st, w))" rule: pass_step.cases) (auto simp: pool_inv_apply_diff)

lemma pool_inv_on_viewport_event: "pool_inv w \<Longrightarrow> pool_inv (snd (on_viewport_event fs w))"
  by (simp add: on_viewport_event_def pool_inv_updateMarkers split: option.splits)

lemma pool_inv_timeline_effect:
  assumes "pool_inv w"
  shows "pool_inv (snd (timeline_effect l v ss fs w))"
proof -
  have a: "pool_inv (w\<lparr>clusters_visible := b\<rparr>)" for b
    using assms by (simp add: pool_inv_def)
  have b: "pool_inv (w\<lparr>clusters_visible := b, source_data := d\<rparr>)" for b d
    using assms by (simp add: pool_inv_def)
  have c: "pool_inv (x\<lparr>subscription := y\<rparr>) = pool_inv x" for x y
    by (simp add: pool_inv_def)
  show ?thesis
    using assms a b pool_inv_removeAllMarkers pool_inv_updateMarkers
    by (simp add: timeline_effect_def Let_def c)
qed

lemma pool_inv_rerun_effect: "pool_inv w \<Longrightarrow> pool_inv (snd (rerun_effect l v ss fs w))"
  by (simp add: rerun_effect_def pool_inv_timeline_effect pool_inv_run_cleanup)

lemma reachable_pool_inv: "reachable w \<Longrightarrow> pool_inv w"
  by (induction rule: reachable.induct)
     (simp_all add: pool_inv_mounted pool_inv_init_effect pool_inv_rerun_effect
        pool_inv_on_viewport_event pool_inv_pass_step pool_inv_closeOnTimeChange
        pool_inv_on_map_click pool_inv_click_marker pool_inv_viewDetailsClick
        pool_inv_handleClusterClick pool_inv_unmount)

lemma world_a_run:
  "snd (rerun_effect True ''timeline'' [sess_a] [] (init_effect True mounted)) = world_a"
  by (simp add: rerun_effect_def run_cleanup_def init_effect_def timeline_effect_def Let_def
        world_a_def only_a_def)
     (simp add: model_defs sample_defs)

lemma reachable_world_a: "reachable world_a"
  using r_effect[OF r_init[OF r_mounted], of True "''timeline''" "[sess_a]" "[]" True]
  by (simp add: world_a_run)

lemma world_ab_run:
  "snd (rerun_effect True ''timeline'' [sess_a, sess_b] [] (init_effect True mounted)) = world_ab"
  by (simp add: rerun_effect_def run_cleanup_def init_effect_def timeline_effect_def Let_def
        world_ab_def both_def)
     (simp add: model_defs sample_defs)

lemma reachable_world_ab: "reachable world_ab"
  using r_effect[OF r_init[OF r_mounted], of True "''timeline''" "[sess_a, sess_b]" "[]" True]
  by (simp add: world_ab_run)

lemma apply_diff_feat_b: "apply_diff [feat_b] world_a = world_b"
  by (simp add: model_defs sample_defs)

lemma world_c_run:
  "rerun_effect True ''timeline'' (replicate 501 sess_b) [small_cluster] (init_effect True mounted) =
     (Awaiting (query_pass [small_cluster]), world_c)"
  by (simp add: rerun_effect_def run_cleanup_def init_effect_def timeline_effect_def Let_def
        updateMarkers_def world_c_def clustering_def mounted_def)

lemma reachable_world_c: "reachable world_c"
  using r_effect[OF r_init[OF r_mounted], of True "''timeline''" "replicate 501 sess_b"
      "[small_cluster]" True]
  by (simp add: world_c_run)

subsection \<open>The features a pass collects are the visible unclustered features\<close>

lemma process_feature_eq:
  "process_feature f p =
     p\<lparr>unclusteredFeatures := unclusteredFeatures p @ filter is_point [f],
       promises := promises p @ requests_of f\<rparr>"
  by (auto simp: process_feature_def is_point_def requests_of_def
      split: option.splits properties.splits)

lemma fold_process_feature:
  "fold process_feature fs p =
     p\<lparr>unclusteredFeatures := unclusteredFeatures p @ filter is_point fs,
       promises := promises p @ concat (map requests_of fs)\<rparr>"
proof (induction fs arbitrary: p)
  case Nil
  show ?case by simp
next
  case (Cons f fs)
  have "fold process_feature (f # fs) p = fold process_feature fs (process_feature f p)"
    by simp
  also have "\<dots> = (process_feature f p)
      \<lparr>unclusteredFeatures := unclusteredFeatures (process_feature f p) @ filter is_point fs,
       promises := promises (process_feature f p) @ concat (map requests_of fs)\<rparr>"
    by (rule Cons.IH)
  also have "\<dots> = p\<lparr>unclusteredFeatures := unclusteredFeatures p @ filter is_point (f # fs),
       promises := promises p @ concat (map requests_of (f # fs))\<rparr>"
    by (subst (1 2 3) process_feature_eq) simp
  finally show ?case .
qed

lemma query_pass_eq:
  "query_pass fs = \<lparr>unclusteredFeatures = filter is_point fs,
                    promises = concat (map requests_of fs)\<rparr>"
  by (simp add: query_pass_def fold_process_feature)

lemma requests_unresolved: "r \<in> set (concat (map requests_of fs)) \<Longrightarrow> \<not> resolved r"
  by (auto simp: requests_of_def split: option.splits properties.splits if_splits)

lemma leaves_so_far_none: "(\<And>r. r \<in> set ps \<Longrightarrow> \<not> resolved r) \<Longrightarrow> leaves_so_far answer ps = {}"
  by (auto simp: leaves_so_far_def)

lemma same_requests_nth:
  "same_requests ps qs \<Longrightarrow> length ps = length qs \<and>
     (\<forall>i<length ps. req_cluster_id (ps ! i) = req_cluster_id (qs ! i) \<and>
                      req_limit (ps ! i) = req_limit (qs ! i))"
  unfolding same_requests_def
  by (metis (mono_tags, lifting) length_map nth_map prod.inject)

lemma deliver_inv:
  assumes sr: "same_requests (promises p) qs"
    and uf: "set (unclusteredFeatures p) = P \<union> leaves_so_far answer (promises p)"
    and aw: "answers_with answer qs ev"
  shows "same_requests (promises (deliver ev p)) qs \<and>
         set (unclusteredFeatures (deliver ev p)) = P \<union> leaves_so_far answer (promises (deliver ev p))"
proof (cases ev)
  case Continue
  with sr uf show ?thesis by simp
next
  case (Resolve i r)
  show ?thesis
  proof (cases "i < length (promises p) \<and> \<not> resolved (promises p ! i)")
    case False
    with Resolve have "deliver ev p = p" by (auto simp: resolve_fetch_def)
    with sr uf show ?thesis by simp
  next
    case True
    let ?ps = "promises p"
    let ?ps' = "?ps[i := (?ps ! i)\<lparr>resolved := True\<rparr>]"
    from same_requests_nth[OF sr] True have il: "i < length qs"
      and rq: "req_cluster_id (?ps ! i) = req_cluster_id (qs ! i)" "req_limit (?ps ! i) = req_limit (qs ! i)"
      by auto
    with aw Resolve have r: "r = answer (req_cluster_id (?ps ! i)) (req_limit (?ps ! i))"
      by (simp add: answers_with_def)
    have d: "deliver ev p = p\<lparr>unclusteredFeatures := unclusteredFeatures p @ leaves_of r,
                               promises := ?ps'\<rparr>"
      using True Resolve by (simp add: resolve_fetch_def)
    have s': "same_requests ?ps' qs"
    proof -
      have "map (\<lambda>r. (req_cluster_id r, req_limit r)) ?ps' =
            map (\<lambda>r. (req_cluster_id r, req_limit r)) ?ps"
        using True by (intro nth_equalityI) (auto simp: nth_list_update)
      with sr show ?thesis by (simp add: same_requests_def)
    qed
    have idx: "{j. j < length ?ps' \<and> resolved (?ps' ! j)} = insert i {j. j < length ?ps \<and> resolved (?ps ! j)}"
      using True by (auto simp: nth_list_update)
    have l': "leaves_so_far answer ?ps' = set (leaves_of r) \<union> leaves_so_far answer ?ps"
    proof -
      have "leaves_so_far answer ?ps' =
            (\<Union>j\<in>insert i {j. j < length ?ps \<and> resolved (?ps ! j)}.
               set (leaves_of (answer (req_cluster_id (?ps' ! j)) (req_limit (?ps' ! j)))))"
        unfolding leaves_so_far_def idx ..
      also have "\<dots> = set (leaves_of (answer (req_cluster_id (?ps' ! i)) (req_limit (?ps' ! i)))) \<union>
            (\<Union>j\<in>{j. j < length ?ps \<and> resolved (?ps ! j)}.
               set (leaves_of (answer (req_cluster_id (?ps' ! j)) (req_limit (?ps' ! j)))))"
        by simp
      also have "(\<Union>j\<in>{j. j < length ?ps \<and> resolved (?ps ! j)}.
               set (leaves_of (answer (req_cluster_id (?ps' ! j)) (req_limit (?ps' ! j))))) =
             leaves_so_far answer ?ps"
        unfolding leaves_so_far_def using True
        by (intro SUP_cong refl) (auto simp: nth_list_update)
      also have "set (leaves_of (answer (req_cluster_id (?ps' ! i)) (req_limit (?ps' ! i)))) =
                 set (leaves_of r)"
        using True r by simp
      finally show ?thesis .
    qed
    from uf l' s' show ?thesis unfolding d by auto
  qed
qed

lemma fold_deliver_inv:
  assumes "same_requests (promises p) qs"
    and "set (unclusteredFeatures p) = P \<union> leaves_so_far answer (promises p)"
    and "list_all (answers_with answer qs) evs"
  shows "same_requests (promises (fold deliver evs p)) qs \<and>
         set (unclusteredFeatures (fold deliver evs p)) =
           P \<union> leaves_so_far answer (promises (fold deliver evs p))"
  using assms
proof (induction evs arbitrary: p)
  case Nil
  then show ?case by simp
next
  case (Cons ev evs)
  from Cons.prems have "answers_with answer qs ev" "list_all (answers_with answer qs) evs"
    by simp_all
  from deliver_inv[OF Cons.prems(1,2) this(1)] Cons.IH[OF _ _ this(2), of "deliver ev p"]
  show ?case by simp
qed

lemma leaves_ready:
  assumes "pass_ready p" "same_requests (promises p) (concat (map requests_of fs))"
    and "list_all counted fs"
  shows "leaves_so_far answer (promises p) = set (concat (map (expanded_leaves answer) fs))"
proof -
  let ?qs = "concat (map requests_of fs)"
  let ?g = "\<lambda>c. set (leaves_of (answer (fst c) (snd c)))"
  let ?req = "\<lambda>r. (req_cluster_id r, req_limit r)"
  from assms(1) have all: "\<And>i. i < length (promises p) \<Longrightarrow> resolved (promises p ! i)"
    by (simp add: pass_ready_def list_all_length)
  have "leaves_so_far answer (promises p) = (\<Union>i\<in>{i. i < length (promises p)}. ?g (?req (promises p ! i)))"
    unfolding leaves_so_far_def using all by (intro SUP_cong) auto
  also have "\<dots> = (\<Union>c\<in>set (map ?req (promises p)). ?g c)"
  proof -
    have "set (map ?req (promises p)) = (\<lambda>i. ?req (promises p ! i)) ` {i. i < length (promises p)}"
      by (auto simp: in_set_conv_nth image_iff) (metis nth_mem)
    then show ?thesis by (simp only: UN_simps image_image SUP_image comp_def)
  qed
  also have "\<dots> = (\<Union>c\<in>set (map ?req ?qs). ?g c)"
    using assms(2) by (simp add: same_requests_def)
  also have "\<dots> = (\<Union>f\<in>set fs. set (expanded_leaves answer f))"
  proof -
    have "(\<Union>c\<in>set (map ?req (requests_of f)). ?g c) = set (expanded_leaves answer f)"
      if "counted f" for f
      using that
      by (auto simp: requests_of_def expanded_leaves_def counted_def
          split: option.splits properties.splits)
    with assms(3) show ?thesis
      by (auto simp: list_all_iff)
  qed
  finally show ?thesis by simp
qed

lemma collected_is_visible:
  assumes "list_all counted features"
    and "list_all (answers_with answer (promises (query_pass features))) evs"
    and "pass_ready (fold deliver evs (query_pass features))"
  shows "set (unclusteredFeatures (fold deliver evs (query_pass features))) =
         set (spec_visible_unclustered answer features)"
proof -
  let ?p = "query_pass features"
  have sr: "same_requests (promises ?p) (promises ?p)" by (simp add: same_requests_def)
  have "leaves_so_far answer (promises ?p) = {}"
  proof (rule leaves_so_far_none)
    fix r assume "r \<in> set (promises ?p)"
    then have "r \<in> set (concat (map requests_of features))" by (simp add: query_pass_eq)
    then show "\<not> resolved r" by (rule requests_unresolved)
  qed
  then have uf: "set (unclusteredFeatures ?p) =
      set (filter is_point features) \<union> leaves_so_far answer (promises ?p)"
    by (simp add: query_pass_eq)
  from fold_deliver_inv[OF sr uf assms(2)]
  have 1: "same_requests (promises (fold deliver evs ?p)) (promises ?p)"
    and 2: "set (unclusteredFeatures (fold deliver evs ?p)) =
            set (filter is_point features) \<union> leaves_so_far answer (promises (fold deliver evs ?p))"
    by simp_all
  from 1 have "same_requests (promises (fold deliver evs ?p)) (concat (map requests_of features))"
    by (simp add: query_pass_eq)
  from leaves_ready[OF assms(3) this assms(1)] 2 show ?thesis
    by (simp add: spec_visible_unclustered_def)
qed

lemma clustering_run:
  "run_pass [Resolve 0 (leaves_b 7 3), Continue]
     (updateMarkers clustering [small_cluster, big_cluster] world_a) = (Completed, world_b)"
proof -
  have q: "query_pass [small_cluster, big_cluster] =
    \<lparr>unclusteredFeatures = [],
     promises = [\<lparr>req_cluster_id = 7, req_limit = 3, req_offset = 0, resolved = False\<rparr>]\<rparr>"
    by (simp add: query_pass_def process_feature_def small_cluster_def big_cluster_def)
  show ?thesis
    by (simp add: updateMarkers_def clustering_def q resolve_fetch_def leaves_of_def
        pass_ready_def leaves_b_def apply_diff_feat_b)
qed

subsection \<open>What a marker was made with stays with it\<close>

lemma later_trans: "later w1 w2 \<Longrightarrow> later w0 w1 \<Longrightarrow> later w0 w2"
  by (induction rule: later.induct) (auto intro: later.intros)

lemma later_fold_upsert: "later w w' \<Longrightarrow> later w (fold upsert fs w')"
  by (induction fs arbitrary: w') (auto intro: l_upsert)

lemma later_apply_diff: "later w w' \<Longrightarrow> later w (apply_diff fs w')"
  by (simp add: apply_diff_def later_fold_upsert l_removal)

lemma later_updateMarkers: "later w w' \<Longrightarrow> later w (snd (updateMarkers c fs w'))"
  by (simp add: updateMarkers_def later_apply_diff)

lemma later_pass_step: "later w w' \<Longrightarrow> later w (snd (pass_step ev (st, w')))"
  by (cases "(ev, (st, w'))" rule: pass_step.cases) (auto simp: later_apply_diff)

lemma later_on_viewport_event: "later w w' \<Longrightarrow> later w (snd (on_viewport_event fs w'))"
  by (simp add: on_viewport_event_def later_updateMarkers split: option.splits)

lemma later_init_effect: "later w w' \<Longrightarrow> later w (init_effect l w')"
  by (erule l_other) (simp_all add: init_effect_def)

lemma later_closeOnTimeChange: "later w w' \<Longrightarrow> later w (closeOnTimeChange w')"
  by (erule l_other) (simp_all add: closeOnTimeChange_def)

lemma later_on_map_click: "later w w' \<Longrightarrow> later w (on_map_click w')"
  by (erule l_other) (simp_all add: on_map_click_def handleMapClick_def split: option.splits)

lemma later_click_marker: "later w w' \<Longrightarrow> later w (click_marker h w')"
  by (erule l_other) (simp_all add: click_marker_def toggleTooltip_def)

lemma later_viewDetailsClick: "later w w' \<Longrightarrow> later w (viewDetailsClick s w')"
  by (erule l_other) (simp_all add: viewDetailsClick_def)

lemma later_handleClusterClick: "later w w' \<Longrightarrow> later w (handleClusterClick fs r w')"
  by (erule l_other) (simp_all add: handleClusterClick_def split: list.splits)

lemma later_run_cleanup: "later w w' \<Longrightarrow> later w (run_cleanup w')"
proof (cases "subscription w'")
  case None
  then show "later w w' \<Longrightarrow> later w (run_cleanup w')" by (simp add: run_cleanup_def)
next
  case (Some c)
  assume "later w w'"
  then have "later w (removeAllMarkers w')" by (rule l_clear)
  then have "later w ((removeAllMarkers w')\<lparr>subscription := None\<rparr>)"
    by (rule l_other) simp_all
  with Some show "later w (run_cleanup w')" by (simp add: run_cleanup_def effect_cleanup_def)
qed

lemma later_unmount: "later w w' \<Longrightarrow> later w (unmount w')"
  unfolding unmount_def by (rule l_other[OF later_run_cleanup]) simp_all

lemma later_timeline_effect:
  assumes "later w w'"
  shows "later w (snd (timeline_effect l v ss fs w'))"
proof -
  have o: "later w (w'\<lparr>clusters_visible := b\<rparr>)" for b
    by (rule l_other[OF assms]) simp_all
  have o2: "later w (w'\<lparr>clusters_visible := b, source_data := d\<rparr>)" for b d
    by (rule l_other[OF assms]) simp_all
  have s: "later w x \<Longrightarrow> later w (x\<lparr>subscription := y\<rparr>)" for x y
    by (erule l_other) simp_all
  show ?thesis
    using assms o o2
    by (auto simp: timeline_effect_def Let_def intro!: s l_clear later_updateMarkers)
qed

lemma later_rerun_effect: "later w w' \<Longrightarrow> later w (snd (rerun_effect l v ss fs w'))"
  by (simp add: rerun_effect_def later_timeline_effect later_run_cleanup)

lemma removal_pass_keeps:
  assumes "h < length (store w)"
  shows "m_session (store (removal_pass ids w) ! h) = m_session (store w ! h) \<and>
         m_click_lnglat (store (removal_pass ids w) ! h) = m_click_lnglat (store w ! h)"
  using assms by (simp add: store_removal_pass nth_fold_destroy)

lemma removeAllMarkers_keeps:
  assumes "h < length (store w)"
  shows "m_session (store (removeAllMarkers w) ! h) = m_session (store w ! h) \<and>
         m_click_lnglat (store (removeAllMarkers w) ! h) = m_click_lnglat (store w ! h)"
  using assms by (simp add: removeAllMarkers_def nth_fold_destroy)

lemma later_keeps:
  assumes "later w w'" "pool_inv w"
  shows "pool_inv w' \<and> length (store w) \<le> length (store w') \<and>
         (\<forall>h<length (store w).
            m_session (store w' ! h) = m_session (store w ! h) \<and>
            m_click_lnglat (store w' ! h) = m_click_lnglat (store w ! h))"
  using assms
proof (induction rule: later.induct)
  case (l_refl w)
  then show ?case by simp
next
  case (l_removal w w' ids)
  then show ?case by (auto simp: pool_inv_removal_pass removal_pass_keeps)
next
  case (l_upsert w w' g)
  then show ?case
    using length_store_upsert[of w' g]
    by (auto simp: pool_inv_upsert upsert_frame)
next
  case (l_clear w w')
  then show ?case by (auto simp: pool_inv_removeAllMarkers removeAllMarkers_keeps)
next
  case (l_other w w' w'')
  then show ?case by (simp add: pool_inv_cong[of w'' w'])
qed

lemma pool_inv_world_ab: "pool_inv world_ab"
  using reachable_world_ab by (rule reachable_pool_inv)

lemma world_moved_pass:
  "snd (pass_step Continue
          (Awaiting \<lparr>unclusteredFeatures = [feat_a_moved, feat_b], promises = []\<rparr>, world_ab)) =
   world_moved"
  by (simp add: pass_ready_def)
     (simp add: diff_defs world_moved_def world_ab_def mounted_def feat_a_moved_def feat_b_def
        sess_a_def sess_b_def)

lemma reachable_world_moved: "reachable world_moved"
  using r_pass[OF reachable_world_ab, of Continue
      "Awaiting \<lparr>unclusteredFeatures = [feat_a_moved, feat_b], promises = []\<rparr>"]
  by (simp only: world_moved_pass)

lemma world_moved_upserts:
  "upsert feat_a_moved (upsert (session_feature sess_b) (upsert (session_feature sess_a) world_empty)) =
   world_moved"
  by (simp add: model_defs world_moved_def world_empty_def world_ab_def mounted_def
      feat_a_moved_def feat_b_def sess_a_def sess_b_def)

lemma later_world_moved: "later (upsert (session_feature sess_a) world_empty) world_moved"
proof -
  have "later (upsert (session_feature sess_a) world_empty)
          (upsert feat_a_moved (upsert (session_feature sess_b)
             (upsert (session_feature sess_a) world_empty)))"
    by (intro l_upsert l_refl)
  then show ?thesis by (simp only: world_moved_upserts)
qed

section \<open>The specified properties\<close>

text \<open>
  C1. When a reconciliation pass has completed (no leaf fetch outstanding), the keys of
  the marker pool are exactly the session identifiers of the visible unclustered
  features: without clustering the features of the active sessions that have
  coordinates; with clustering the points among the features the source reports,
  together with the leaves the source answers for the small clusters among them, in
  whatever order the answers arrive. Each key occurs once; and every entry the pool had
  under an identifier outside that set is evicted, its marker off the map and not
  listening. An identifier is a truthy \<^verbatim>\<open>session_id\<close>.
\<close>

theorem updateMarkers_pool_equals_target:
  assumes "pool_inv w"
    and "if c_shouldShowClusters c
         then list_all counted features \<and>
              list_all (answers_with answer (promises (query_pass features))) evs \<and>
              fs = spec_visible_unclustered answer features
         else fs = session_features (c_activeSessions c)"
    and "run_pass evs (updateMarkers c features w) = (Completed, w')"
  shows "set (map fst (markersMap w')) =
           {k. truthy_str k \<and> (\<exists>f\<in>set fs. feature_session_id f = Some k)} \<and>
         distinct (map fst (markersMap w')) \<and>
         (\<forall>e\<in>set (markersMap w).
            fst e \<notin> {k. truthy_str k \<and> (\<exists>f\<in>set fs. feature_session_id f = Some k)} \<longrightarrow>
            fst e \<notin> set (map fst (markersMap w')) \<and>
            \<not> m_listening (store w' ! snd e) \<and> \<not> m_on_map (store w' ! snd e))"
proof -
  have "\<exists>xs. w' = apply_diff xs w \<and> set xs = set fs"
  proof (cases "c_shouldShowClusters c")
    case False
    with assms(2,3) have "w' = apply_diff fs w" by (simp add: updateMarkers_def)
    then show ?thesis by blast
  next
    case True
    with assms(2) have cnt: "list_all counted features"
      and ans: "list_all (answers_with answer (promises (query_pass features))) evs"
      and fs: "fs = spec_visible_unclustered answer features"
      by simp_all
    from True assms(3) have "run_pass evs (Awaiting (query_pass features), w) = (Completed, w')"
      by (simp add: updateMarkers_def)
    from run_pass_completed[OF this] obtain n where n: "n < length evs"
      "pass_ready (fold deliver (take n evs) (query_pass features))"
      "w' = apply_diff (unclusteredFeatures (fold deliver (take n evs) (query_pass features))) w"
      by blast
    from ans have "list_all (answers_with answer (promises (query_pass features))) (take n evs)"
      by (auto simp: list_all_iff dest: in_set_takeD)
    from collected_is_visible[OF cnt this n(2)] n(3) fs show ?thesis by blast
  qed
  then obtain xs where w': "w' = apply_diff xs w" and xs: "set xs = set fs" by blast
  have ids: "set (currentSessionIds xs) =
      {k. truthy_str k \<and> (\<exists>f\<in>set fs. feature_session_id f = Some k)}"
    by (simp add: set_currentSessionIds xs)
  have keys: "set (map fst (markersMap w')) = set (currentSessionIds xs)"
    unfolding w' using keys_apply_diff[of xs w] by simp
  have "pool_inv w'" unfolding w' using assms(1) by (rule pool_inv_apply_diff)
  then have dist: "distinct (map fst (markersMap w'))" by (simp add: pool_inv_iff)
  have gone: "\<not> m_listening (store w' ! snd e) \<and> \<not> m_on_map (store w' ! snd e)"
    if "e \<in> set (markersMap w)" "fst e \<notin> set (currentSessionIds xs)" for e
    unfolding w' using assms(1) that by (rule apply_diff_destroys)
  from keys dist gone show ?thesis
    unfolding ids[symmetric] by blast
qed

theorem updateMarkers_pool_equals_target_witness:
  "pool_inv world_a \<and>
   c_shouldShowClusters clustering \<and>
   list_all counted [small_cluster, big_cluster] \<and>
   list_all (answers_with leaves_b (promises (query_pass [small_cluster, big_cluster])))
     [Resolve 0 (leaves_b 7 3), Continue] \<and>
   spec_visible_unclustered leaves_b [small_cluster, big_cluster] = [feat_b] \<and>
   run_pass [Resolve 0 (leaves_b 7 3), Continue]
     (updateMarkers clustering [small_cluster, big_cluster] world_a) = (Completed, world_b) \<and>
   set (map fst (markersMap world_b)) = {''b''} \<and>
   distinct (map fst (markersMap world_b)) \<and>
   (''a'', 0) \<in> set (markersMap world_a) \<and>
   \<not> m_listening (store world_b ! 0) \<and> \<not> m_on_map (store world_b ! 0) \<and>
   \<not> c_shouldShowClusters only_b \<and>
   run_pass [] (updateMarkers only_b [] world_a) = (Completed, world_b)"
proof -
  have c: "c_shouldShowClusters clustering" by (simp add: clustering_def)
  have cnt: "list_all counted [small_cluster, big_cluster]"
    by (simp add: counted_def small_cluster_def big_cluster_def)
  have ans: "list_all (answers_with leaves_b (promises (query_pass [small_cluster, big_cluster])))
     [Resolve 0 (leaves_b 7 3), Continue]"
    by (simp add: answers_with_def query_pass_def process_feature_def small_cluster_def
        big_cluster_def)
  have vis: "spec_visible_unclustered leaves_b [small_cluster, big_cluster] = [feat_b]"
    by (simp add: spec_visible_unclustered_def is_point_def expanded_leaves_def leaves_of_def
        leaves_b_def small_cluster_def big_cluster_def)
  have h: "if c_shouldShowClusters clustering
         then list_all counted [small_cluster, big_cluster] \<and>
              list_all (answers_with leaves_b (promises (query_pass [small_cluster, big_cluster])))
                [Resolve 0 (leaves_b 7 3), Continue] \<and>
              [feat_b] = spec_visible_unclustered leaves_b [small_cluster, big_cluster]
         else [feat_b] = session_features (c_activeSessions clustering)"
    using c cnt ans vis by simp
  have ids: "{k. truthy_str k \<and> (\<exists>f\<in>set [feat_b]. feature_session_id f = Some k)} = {''b''}"
    by (auto simp: truthy_str_def feature_session_id_def feat_b_def sess_b_def)
  have a: "(''a'', 0) \<in> set (markersMap world_a)" by (simp add: world_a_def)
  have nb: "\<not> c_shouldShowClusters only_b" by (simp add: only_b_def)
  have sync: "run_pass [] (updateMarkers only_b [] world_a) = (Completed, world_b)"
    by (simp add: updateMarkers_only_b)
  from updateMarkers_pool_equals_target[OF pool_inv_world_a h clustering_run]
  have "set (map fst (markersMap world_b)) = {''b''}"
    and "distinct (map fst (markersMap world_b))"
    and "\<forall>e\<in>set (markersMap world_a). fst e \<notin> {''b''} \<longrightarrow>
            \<not> m_listening (store world_b ! snd e) \<and> \<not> m_on_map (store world_b ! snd e)"
    unfolding ids by blast+
  with a have "set (map fst (markersMap world_b)) = {''b''}"
    and "distinct (map fst (markersMap world_b))"
    and "\<not> m_listening (store world_b ! 0) \<and> \<not> m_on_map (store world_b ! 0)"
    by force+
  with pool_inv_world_a c cnt ans vis clustering_run a nb sync show ?thesis by blast
qed

text \<open>
  C2, as stated, fails. The effects run with \<open>a\<close> as the one active session, the marker
  of \<open>a\<close> is clicked, and the view is switched away: in that reachable state the popup is
  open and \<open>a\<close> is recorded, while the pool has no marker for \<open>a\<close>. The same holds after
  a removal pass that finds \<open>a\<close> no longer visible.
\<close>

theorem tooltip_survives_removal_counterexample:
  "reachable (snd (rerun_effect True ''globe'' [sess_a] [] (click_marker 0 world_a))) \<and>
   pool_get ''a'' (markersMap (click_marker 0 world_a)) = Some 0 \<and>
   openTooltipSessionId (click_marker 0 world_a) = Some ''a'' \<and>
   popup_open (snd (rerun_effect True ''globe'' [sess_a] [] (click_marker 0 world_a))) \<and>
   openTooltipSessionId (snd (rerun_effect True ''globe'' [sess_a] [] (click_marker 0 world_a)))
     = Some ''a'' \<and>
   pool_get ''a'' (markersMap (snd (rerun_effect True ''globe'' [sess_a] [] (click_marker 0 world_a))))
     = None \<and>
   popup_open (apply_diff [] (click_marker 0 world_a)) \<and>
   openTooltipSessionId (apply_diff [] (click_marker 0 world_a)) = Some ''a'' \<and>
   pool_get ''a'' (markersMap (apply_diff [] (click_marker 0 world_a))) = None"
proof -
  have "reachable (snd (rerun_effect True ''globe'' [sess_a] [] (click_marker 0 world_a)))"
    by (intro r_effect r_marker_click reachable_world_a)
  moreover have c: "click_marker 0 world_a =
      world_a\<lparr>popup_open := True, popup_lnglat := Some (1.2346, 2), popup_session := Some sess_a,
              openTooltipSessionId := Some ''a''\<rparr>"
    by (simp add: click_marker_def toggleTooltip_def world_a_def mounted_def new_marker_def sess_a_def)
  ultimately show ?thesis
    unfolding c
    by (simp add: rerun_effect_def run_cleanup_def effect_cleanup_def timeline_effect_def
        removeAllMarkers_def world_a_def mounted_def diff_defs)
qed

text \<open>
  C2, amended. The recorded identifier is a single optional value, so at most one is
  recorded. A click records a new identifier only for a marker that is in the pool under
  that identifier. The paths that destroy markers (the diff of a pass, the loop that
  clears the pool, the cleanup of the effect, unmount, the switch of the view) leave
  the popup and the recorded identifier as they were: none of them closes the tooltip.
\<close>

theorem destruction_leaves_tooltip:
  assumes "pool_inv w"
  shows "(openTooltipSessionId (click_marker h w) = Some k \<and> openTooltipSessionId w \<noteq> Some k
            \<longrightarrow> (k, h) \<in> set (markersMap w)) \<and>
         popup_open (apply_diff fs w) = popup_open w \<and>
         openTooltipSessionId (apply_diff fs w) = openTooltipSessionId w \<and>
         popup_open (removeAllMarkers w) = popup_open w \<and>
         openTooltipSessionId (removeAllMarkers w) = openTooltipSessionId w \<and>
         popup_open (effect_cleanup w) = popup_open w \<and>
         openTooltipSessionId (effect_cleanup w) = openTooltipSessionId w \<and>
         popup_open (unmount w) = popup_open w \<and>
         openTooltipSessionId (unmount w) = openTooltipSessionId w \<and>
         (mapView \<noteq> ''timeline'' \<longrightarrow>
            popup_open (snd (rerun_effect mapLoaded mapView activeSessions features w)) = popup_open w \<and>
            openTooltipSessionId (snd (rerun_effect mapLoaded mapView activeSessions features w)) =
              openTooltipSessionId w)"
proof -
  have click: "(k, h) \<in> set (markersMap w)"
    if a: "openTooltipSessionId (click_marker h w) = Some k" and b: "openTooltipSessionId w \<noteq> Some k"
  proof -
    from a b have hl: "h < length (store w)" and l: "m_listening (store w ! h)"
      by (auto simp: click_marker_def split: if_splits)
    with a b have k: "k = session_id (m_session (store w ! h))"
      by (auto simp: click_marker_def toggleTooltip_def split: if_splits)
    from assms hl l obtain e where e: "e \<in> set (markersMap w)" "snd e = h"
      by (auto simp: pool_inv_iff)
    with assms have "fst e = session_id (m_session (store w ! h))"
      by (auto simp: pool_inv_iff)
    with k e show ?thesis by (metis prod.collapse)
  qed
  have view: "popup_open (snd (rerun_effect mapLoaded mapView activeSessions features w)) = popup_open w \<and>
      openTooltipSessionId (snd (rerun_effect mapLoaded mapView activeSessions features w)) =
        openTooltipSessionId w" if "mapView \<noteq> ''timeline''"
    using that run_cleanup_tooltip[of w]
    by (simp add: rerun_effect_def timeline_effect_def removeAllMarkers_def)
  from click view show ?thesis
    using run_cleanup_tooltip[of w]
    by (simp add: apply_diff_tooltip removeAllMarkers_tooltip effect_cleanup_def unmount_def)
qed

theorem destruction_leaves_tooltip_witness:
  "pool_inv world_a \<and>
   openTooltipSessionId (click_marker 0 world_a) = Some ''a'' \<and>
   openTooltipSessionId world_a \<noteq> Some ''a'' \<and>
   (''a'', 0) \<in> set (markersMap world_a) \<and>
   openTooltipSessionId (apply_diff [] (click_marker 0 world_a)) =
     openTooltipSessionId (click_marker 0 world_a) \<and>
   ''globe'' \<noteq> ''timeline'' \<and>
   openTooltipSessionId (snd (rerun_effect True ''globe'' [] [] world_a)) =
     openTooltipSessionId world_a"
proof -
  have 1: "openTooltipSessionId (click_marker 0 world_a) = Some ''a''"
    by (simp add: click_marker_def toggleTooltip_def sample_defs new_marker_def)
  have 2: "openTooltipSessionId world_a \<noteq> Some ''a''"
    by (simp add: sample_defs)
  have 3: "pool_inv (click_marker 0 world_a)"
    using pool_inv_world_a
    by (simp add: pool_inv_def click_marker_def toggleTooltip_def)
  from destruction_leaves_tooltip[OF pool_inv_world_a, of 0 "''a''" "[]" "''globe''" True "[]" "[]"]
    destruction_leaves_tooltip[OF 3, of 0 "''a''" "[]" "''globe''" True "[]" "[]"]
    1 2 pool_inv_world_a
  show ?thesis by simp
qed

text \<open>
  C3. The filter \<^verbatim>\<open>s.lat && s.lon\<close> tests truthiness, so a session on the equator
  (latitude 0, longitude present) is left out of the feature collection and gets no
  marker, although both of its coordinates are present.
\<close>

theorem equator_session_dropped:
  "lat sess_equator = Some 0 \<and> lon sess_equator = Some 36.8219 \<and>
   \<not> has_coords sess_equator \<and>
   session_features [sess_equator] = [] \<and>
   markersMap (snd (updateMarkers
      \<lparr>c_shouldShowClusters = False, c_activeSessions = [sess_equator]\<rparr> [] mounted)) = []"
  by (simp add: model_defs sample_defs)

text \<open>
  C4, as stated, fails: a session at longitude 1.23456 gets its marker at 1.2346.
\<close>

theorem marker_position_rounded_counterexample:
  "lon sess_a = Some (123456 / 100000) \<and> lat sess_a = Some 2 \<and>
   markersMap (snd (updateMarkers
      \<lparr>c_shouldShowClusters = False, c_activeSessions = [sess_a]\<rparr> [] mounted)) = [(''a'', 0)] \<and>
   m_session (store (snd (updateMarkers
      \<lparr>c_shouldShowClusters = False, c_activeSessions = [sess_a]\<rparr> [] mounted)) ! 0) = sess_a \<and>
   m_lnglat (store (snd (updateMarkers
      \<lparr>c_shouldShowClusters = False, c_activeSessions = [sess_a]\<rparr> [] mounted)) ! 0) = (12346 / 10000, 2) \<and>
   m_lnglat (store (snd (updateMarkers
      \<lparr>c_shouldShowClusters = False, c_activeSessions = [sess_a]\<rparr> [] mounted)) ! 0)
     \<noteq> (123456 / 100000, 2)"
  by (simp add: model_defs sample_defs)

text \<open>
  C4, amended. After a completed pass every marker of the pool stands at the coordinate
  of a feature of the pass that carries its identifier. Without clustering that is the
  longitude and latitude of an active session with that identifier, each rounded to
  four decimal places; with clustering it is the coordinate the source reported for a
  point or leaf with that identifier.
\<close>

theorem marker_position_is_feature_coordinate:
  assumes "pool_inv w"
  shows "(\<not> c_shouldShowClusters c \<and> updateMarkers c features w = (Completed, w') \<and>
          (k, h) \<in> set (markersMap w') \<longrightarrow>
            (\<exists>s\<in>set (c_activeSessions c). session_id s = k \<and> has_coords s \<and>
               m_lnglat (store w' ! h) = (round4 (to_number (lon s)), round4 (to_number (lat s))))) \<and>
         (pass_ready p \<and> pass_step Continue (Awaiting p, w) = (Completed, w') \<and>
          (k, h) \<in> set (markersMap w') \<longrightarrow>
            (\<exists>f\<in>set (unclusteredFeatures p). feature_session_id f = Some k \<and>
               m_lnglat (store w' ! h) = coordinates f))"
proof (intro conjI impI)
  assume a: "\<not> c_shouldShowClusters c \<and> updateMarkers c features w = (Completed, w') \<and>
          (k, h) \<in> set (markersMap w')"
  then have w': "w' = apply_diff (session_features (c_activeSessions c)) w"
    by (auto simp: updateMarkers_def)
  from apply_diff_position[OF assms(1), of "(k, h)" "session_features (c_activeSessions c)"] a
  obtain f where f: "f \<in> set (session_features (c_activeSessions c))"
    "feature_session_id f = Some k" "m_lnglat (store w' ! h) = coordinates f"
    unfolding w' by auto
  from f(1) obtain s where s: "s \<in> set (c_activeSessions c)" "has_coords s" "f = session_feature s"
    by (auto simp: session_features_def)
  with f have "session_id s = k"
    "m_lnglat (store w' ! h) = (round4 (to_number (lon s)), round4 (to_number (lat s)))"
    by (auto simp: session_feature_def feature_session_id_def)
  with s show "\<exists>s\<in>set (c_activeSessions c). session_id s = k \<and> has_coords s \<and>
               m_lnglat (store w' ! h) = (round4 (to_number (lon s)), round4 (to_number (lat s)))"
    by blast
next
  assume a: "pass_ready p \<and> pass_step Continue (Awaiting p, w) = (Completed, w') \<and>
          (k, h) \<in> set (markersMap w')"
  then have w': "w' = apply_diff (unclusteredFeatures p) w"
    by (auto split: if_splits)
  from apply_diff_position[OF assms(1), of "(k, h)" "unclusteredFeatures p"] a
  show "\<exists>f\<in>set (unclusteredFeatures p). feature_session_id f = Some k \<and>
               m_lnglat (store w' ! h) = coordinates f"
    unfolding w' by auto
qed

theorem marker_position_is_feature_coordinate_witness:
  "pool_inv world_a \<and> \<not> c_shouldShowClusters only_b \<and>
   updateMarkers only_b [] world_a = (Completed, world_b) \<and>
   (''b'', 1) \<in> set (markersMap world_b) \<and>
   (\<exists>s\<in>set (c_activeSessions only_b). session_id s = ''b'' \<and> has_coords s \<and>
      m_lnglat (store world_b ! 1) = (round4 (to_number (lon s)), round4 (to_number (lat s)))) \<and>
   pass_ready \<lparr>unclusteredFeatures = [feat_b], promises = []\<rparr> \<and>
   pass_step Continue (Awaiting \<lparr>unclusteredFeatures = [feat_b], promises = []\<rparr>, world_a) =
     (Completed, world_b) \<and>
   (\<exists>f\<in>set (unclusteredFeatures \<lparr>unclusteredFeatures = [feat_b], promises = []\<rparr>).
      feature_session_id f = Some ''b'' \<and> m_lnglat (store world_b ! 1) = coordinates f)"
proof -
  have 1: "\<not> c_shouldShowClusters only_b" by (simp add: only_b_def)
  have 2: "(''b'', 1) \<in> set (markersMap world_b)" by (simp add: world_b_def)
  have 3: "pass_ready \<lparr>unclusteredFeatures = [feat_b], promises = []\<rparr>"
    by (simp add: pass_ready_def)
  have 4: "pass_step Continue (Awaiting \<lparr>unclusteredFeatures = [feat_b], promises = []\<rparr>, world_a) =
     (Completed, world_b)"
    using 3 by (simp add: apply_diff_feat_b)
  from marker_position_is_feature_coordinate[OF pool_inv_world_a,
      of only_b "[]" world_b "''b''" 1 "\<lparr>unclusteredFeatures = [feat_b], promises = []\<rparr>"]
    1 2 3 4 updateMarkers_only_b pool_inv_world_a
  show ?thesis by blast
qed



text \<open>
  C6, as stated, fails. With 501 active sessions the first pass of the effect is suspended
  on the fetch for a small cluster; unmount clears the pool and takes the handlers off; the
  fetch resolves, and the continuation of the pass puts a marker for session \<open>b\<close> into
  the cleared pool and onto the map.
\<close>

theorem late_apply_repopulates_pool_counterexample:
  "rerun_effect True ''timeline'' (replicate 501 sess_b) [small_cluster] (init_effect True mounted) =
     (Awaiting (query_pass [small_cluster]), world_c) \<and>
   markersMap (unmount world_c) = [] \<and>
   subscription (unmount world_c) = None \<and>
   fst (run_pass [Resolve 0 (None, Some [feat_b]), Continue]
          (Awaiting (query_pass [small_cluster]), unmount world_c)) = Completed \<and>
   markersMap (snd (run_pass [Resolve 0 (None, Some [feat_b]), Continue]
          (Awaiting (query_pass [small_cluster]), unmount world_c))) = [(''b'', 0)] \<and>
   m_on_map (store (snd (run_pass [Resolve 0 (None, Some [feat_b]), Continue]
          (Awaiting (query_pass [small_cluster]), unmount world_c))) ! 0)"
  by (simp add: world_c_run)
     (simp add: query_small resolve_fetch_def leaves_of_def pass_ready_def unmount_def
        run_cleanup_def effect_cleanup_def removeAllMarkers_def world_c_def mounted_def
        diff_defs feat_b_def sess_b_def)

text \<open>
  C6, amended. Teardown of a subscribed effect clears the pool and removes the
  subscription, so that a later viewport event starts no pass. A pass that was suspended
  at teardown still runs its apply step once its fetches have resolved: after it the keys
  of the pool are the truthy session identifiers of the features that pass collected,
  whatever teardown did.
\<close>

theorem late_apply_after_teardown:
  assumes "subscription w = Some c"
  shows "markersMap (unmount w) = [] \<and>
         subscription (unmount w) = None \<and>
         on_viewport_event features (unmount w) = (Completed, unmount w) \<and>
         (run_pass evs (Awaiting p, unmount w) = (Completed, w') \<longrightarrow>
            (\<exists>n<length evs. evs ! n = Continue \<and> pass_ready (fold deliver (take n evs) p) \<and>
               set (map fst (markersMap w')) =
                 {k. truthy_str k \<and>
                     (\<exists>f\<in>set (unclusteredFeatures (fold deliver (take n evs) p)).
                        feature_session_id f = Some k)}))"
proof -
  from assms have 1: "markersMap (unmount w) = []" and 2: "subscription (unmount w) = None"
    by (simp_all add: unmount_def run_cleanup_def effect_cleanup_def)
  from 2 have 3: "on_viewport_event features (unmount w) = (Completed, unmount w)"
    by (simp add: on_viewport_event_def)
  have 4: "\<exists>n<length evs. evs ! n = Continue \<and> pass_ready (fold deliver (take n evs) p) \<and>
               set (map fst (markersMap w')) =
                 {k. truthy_str k \<and>
                     (\<exists>f\<in>set (unclusteredFeatures (fold deliver (take n evs) p)).
                        feature_session_id f = Some k)}"
    if "run_pass evs (Awaiting p, unmount w) = (Completed, w')"
  proof -
    from run_pass_completed[OF that] obtain n where n: "n < length evs" "evs ! n = Continue"
      "pass_ready (fold deliver (take n evs) p)"
      "w' = apply_diff (unclusteredFeatures (fold deliver (take n evs) p)) (unmount w)"
      by blast
    from n(4) have "set (map fst (markersMap w')) =
        set (currentSessionIds (unclusteredFeatures (fold deliver (take n evs) p)))"
      using keys_apply_diff by simp
    with n show ?thesis unfolding set_currentSessionIds by blast
  qed
  from 1 2 3 4 show ?thesis by blast
qed

theorem late_apply_after_teardown_witness:
  "subscription world_c = Some clustering \<and>
   markersMap (unmount world_c) = [] \<and>
   run_pass [Continue] (Awaiting \<lparr>unclusteredFeatures = [feat_b], promises = []\<rparr>, unmount world_c)
     = (Completed, apply_diff [feat_b] (unmount world_c)) \<and>
   (\<exists>n<length [Continue]. [Continue] ! n = Continue \<and>
      pass_ready (fold deliver (take n [Continue]) \<lparr>unclusteredFeatures = [feat_b], promises = []\<rparr>) \<and>
      set (map fst (markersMap (apply_diff [feat_b] (unmount world_c)))) =
        {k. truthy_str k \<and>
            (\<exists>f\<in>set (unclusteredFeatures
                 (fold deliver (take n [Continue]) \<lparr>unclusteredFeatures = [feat_b], promises = []\<rparr>)).
               feature_session_id f = Some k)})"
proof -
  have 1: "subscription world_c = Some clustering" by (simp add: world_c_def)
  have 2: "run_pass [Continue] (Awaiting \<lparr>unclusteredFeatures = [feat_b], promises = []\<rparr>, unmount world_c)
     = (Completed, apply_diff [feat_b] (unmount world_c))"
    by (simp add: pass_ready_def)
  from late_apply_after_teardown[OF 1, of "[]" "[Continue]"
      "\<lparr>unclusteredFeatures = [feat_b], promises = []\<rparr>" "apply_diff [feat_b] (unmount world_c)"] 1 2
  show ?thesis by blast
qed

text \<open>
  C8. A pass with clustering leaves the state untouched when it suspends. For every
  sequence of events of the pass (leaf callbacks, and the scheduler offering the
  continuation), as long as a fetch of the pass is outstanding the state is the one the
  pass started from; and when the pass has completed, the one diff it applied was
  computed at a moment when every promise had resolved, from all the leaves delivered
  until then.
\<close>

theorem no_mutation_before_all_fetches_resolve:
  "(c_shouldShowClusters c \<longrightarrow> updateMarkers c features w = (Awaiting (query_pass features), w)) \<and>
   (outstanding (fst (run_pass evs (Awaiting p, w))) \<longrightarrow> snd (run_pass evs (Awaiting p, w)) = w) \<and>
   (run_pass evs (Awaiting p, w) = (Completed, w') \<longrightarrow>
      (\<exists>n<length evs. evs ! n = Continue \<and> pass_ready (fold deliver (take n evs) p) \<and>
         w' = apply_diff (unclusteredFeatures (fold deliver (take n evs) p)) w))"
proof (intro conjI impI)
  assume "c_shouldShowClusters c"
  then show "updateMarkers c features w = (Awaiting (query_pass features), w)"
    by (simp add: updateMarkers_def)
next
  assume a: "outstanding (fst (run_pass evs (Awaiting p, w)))"
  then obtain p' where "fst (run_pass evs (Awaiting p, w)) = Awaiting p'"
    by (cases "fst (run_pass evs (Awaiting p, w))") auto
  then have "run_pass evs (Awaiting p, w) = (Awaiting p', snd (run_pass evs (Awaiting p, w)))"
    by (metis prod.collapse)
  from run_pass_still_awaiting[OF this] show "snd (run_pass evs (Awaiting p, w)) = w" by simp
next
  assume "run_pass evs (Awaiting p, w) = (Completed, w')"
  then show "\<exists>n<length evs. evs ! n = Continue \<and> pass_ready (fold deliver (take n evs) p) \<and>
         w' = apply_diff (unclusteredFeatures (fold deliver (take n evs) p)) w"
    by (rule run_pass_completed)
qed

theorem no_mutation_before_all_fetches_resolve_witness:
  "c_shouldShowClusters clustering \<and>
   updateMarkers clustering [small_cluster] world_a = (Awaiting (query_pass [small_cluster]), world_a) \<and>
   outstanding (fst (run_pass [Continue] (Awaiting (query_pass [small_cluster]), world_a))) \<and>
   snd (run_pass [Continue] (Awaiting (query_pass [small_cluster]), world_a)) = world_a \<and>
   run_pass [Resolve 0 (None, Some [feat_b]), Continue] (Awaiting (query_pass [small_cluster]), world_a)
     = (Completed, world_b) \<and>
   (\<exists>n<length [Resolve 0 (None, Some [feat_b]), Continue].
      [Resolve 0 (None, Some [feat_b]), Continue] ! n = Continue \<and>
      pass_ready (fold deliver (take n [Resolve 0 (None, Some [feat_b]), Continue])
                    (query_pass [small_cluster])) \<and>
      world_b = apply_diff (unclusteredFeatures
        (fold deliver (take n [Resolve 0 (None, Some [feat_b]), Continue])
           (query_pass [small_cluster]))) world_a)"
proof -
  have 1: "c_shouldShowClusters clustering" by (simp add: clustering_def)
  have 2: "outstanding (fst (run_pass [Continue] (Awaiting (query_pass [small_cluster]), world_a)))"
    by (simp add: query_small pass_ready_def)
  have 3: "run_pass [Resolve 0 (None, Some [feat_b]), Continue]
             (Awaiting (query_pass [small_cluster]), world_a) = (Completed, world_b)"
    by (simp add: query_small pass_defs) (simp add: model_defs sample_defs)
  from no_mutation_before_all_fetches_resolve[of clustering "[small_cluster]" world_a _
      "query_pass [small_cluster]"] 
  have a: "updateMarkers clustering [small_cluster] world_a = (Awaiting (query_pass [small_cluster]), world_a)"
    using 1 by blast
  from no_mutation_before_all_fetches_resolve[of clustering "[small_cluster]" world_a "[Continue]"
      "query_pass [small_cluster]"] 2
  have b: "snd (run_pass [Continue] (Awaiting (query_pass [small_cluster]), world_a)) = world_a"
    by blast
  from no_mutation_before_all_fetches_resolve[of clustering "[small_cluster]" world_a
      "[Resolve 0 (None, Some [feat_b]), Continue]" "query_pass [small_cluster]" world_b] 3
  have c: "\<exists>n<length [Resolve 0 (None, Some [feat_b]), Continue].
      [Resolve 0 (None, Some [feat_b]), Continue] ! n = Continue \<and>
      pass_ready (fold deliver (take n [Resolve 0 (None, Some [feat_b]), Continue])
                    (query_pass [small_cluster])) \<and>
      world_b = apply_diff (unclusteredFeatures
        (fold deliver (take n [Resolve 0 (None, Some [feat_b]), Continue])
           (query_pass [small_cluster]))) world_a"
    by blast
  from 1 2 3 a b c show ?thesis by blast
qed



text \<open>
  C9, as stated, fails in where the tooltip stands. With both sessions active and the
  tooltip open for \<open>b\<close>, a click on the marker of \<open>a\<close> opens the tooltip for \<open>a\<close> at
  longitude 1.2346, while the longitude of session \<open>a\<close> is 1.23456. And after a pass has
  moved the marker of \<open>a\<close> to (3, 4), a click on it still opens the tooltip at (1.2346, 2).
\<close>

theorem tooltip_not_at_session_coordinate_counterexample:
  "reachable (click_marker 1 world_ab) \<and>
   (''a'', 0) \<in> set (markersMap (click_marker 1 world_ab)) \<and>
   m_session (store (click_marker 1 world_ab) ! 0) = sess_a \<and>
   lon sess_a = Some (123456 / 100000) \<and> lat sess_a = Some 2 \<and>
   popup_open (click_marker 1 world_ab) \<and>
   openTooltipSessionId (click_marker 1 world_ab) = Some ''b'' \<and>
   popup_open (click_marker 0 (click_marker 1 world_ab)) \<and>
   openTooltipSessionId (click_marker 0 (click_marker 1 world_ab)) = Some ''a'' \<and>
   popup_lnglat (click_marker 0 (click_marker 1 world_ab)) = Some (12346 / 10000, 2) \<and>
   popup_lnglat (click_marker 0 (click_marker 1 world_ab)) \<noteq> Some (123456 / 100000, 2) \<and>
   reachable world_moved \<and>
   (''a'', 0) \<in> set (markersMap world_moved) \<and>
   m_lnglat (store world_moved ! 0) = (3, 4) \<and>
   \<not> popup_open world_moved \<and>
   popup_lnglat (click_marker 0 world_moved) = Some (12346 / 10000, 2)"
proof -
  have "reachable (click_marker 1 world_ab)"
    by (intro r_marker_click reachable_world_ab)
  moreover have "click_marker 1 world_ab =
      world_ab\<lparr>popup_open := True, popup_lnglat := Some (151.2093, -33.8688),
               popup_session := Some sess_b, openTooltipSessionId := Some ''b''\<rparr>"
    by (simp add: click_marker_def toggleTooltip_def world_ab_def mounted_def new_marker_def
        sess_b_def)
  ultimately show ?thesis
    using reachable_world_moved
    by (simp add: click_marker_def toggleTooltip_def world_ab_def world_moved_def mounted_def
        new_marker_def sess_a_def)
qed

text \<open>
  C9, amended. Take the marker a pass made for session \<open>s\<close> from the feature \<open>f\<close>, in any
  later state of a live map with its popup created, while that marker is in the pool.
  A click on it with no tooltip open opens the tooltip for \<open>s\<close> and records the
  identifier of \<open>s\<close>; with the tooltip open for that identifier it closes the tooltip and
  records none; with the tooltip open for another identifier it leaves the tooltip open,
  now for \<open>s\<close>. An opened tooltip stands at the coordinate of \<open>f\<close>, the one the marker
  was made at, wherever the marker has been moved since; for a feature built from the
  session that is the longitude and latitude of \<open>s\<close>, each rounded to four decimal places.
\<close>

theorem marker_click_opens_at_creation_coordinate:
  assumes "pool_inv w0"
    and "properties f = Some (PointProps s)" and "truthy_str (session_id s)"
    and "pool_get (session_id s) (markersMap w0) = None"
    and "later (upsert f w0) w"
    and "(session_id s, length (store w0)) \<in> set (markersMap w)"
    and "map_current w" and "popup_created w"
  shows "(\<not> popup_open w \<longrightarrow>
            popup_open (click_marker (length (store w0)) w) \<and>
            openTooltipSessionId (click_marker (length (store w0)) w) = Some (session_id s) \<and>
            popup_session (click_marker (length (store w0)) w) = Some s \<and>
            popup_lnglat (click_marker (length (store w0)) w) = Some (coordinates f)) \<and>
         (popup_open w \<and> openTooltipSessionId w = Some (session_id s) \<longrightarrow>
            \<not> popup_open (click_marker (length (store w0)) w) \<and>
            openTooltipSessionId (click_marker (length (store w0)) w) = None) \<and>
         (popup_open w \<and> openTooltipSessionId w \<noteq> Some (session_id s) \<longrightarrow>
            popup_open (click_marker (length (store w0)) w) \<and>
            openTooltipSessionId (click_marker (length (store w0)) w) = Some (session_id s) \<and>
            popup_session (click_marker (length (store w0)) w) = Some s \<and>
            popup_lnglat (click_marker (length (store w0)) w) = Some (coordinates f)) \<and>
         (f = session_feature s \<longrightarrow>
            coordinates f = (round4 (to_number (lon s)), round4 (to_number (lat s))))"
proof -
  let ?h = "length (store w0)"
  let ?w1 = "upsert f w0"
  have w1: "?w1 = w0\<lparr>store := store w0 @ [new_marker s (coordinates f)],
                      markersMap := markersMap w0 @ [(session_id s, ?h)]\<rparr>"
    using assms(2,3,4) by (rule upsert_create)
  then have made: "?h < length (store ?w1)" "m_session (store ?w1 ! ?h) = s"
    "m_click_lnglat (store ?w1 ! ?h) = coordinates f"
    by (simp_all add: new_marker_def)
  have inv1: "pool_inv ?w1" using assms(1) by (rule pool_inv_upsert)
  from later_keeps[OF assms(5) inv1] made
  have inv: "pool_inv w" and ms: "m_session (store w ! ?h) = s"
    and mc: "m_click_lnglat (store w ! ?h) = coordinates f"
    by auto
  from inv assms(6) have "?h < length (store w)" "m_listening (store w ! ?h)"
    by (auto simp: pool_inv_iff)
  with ms mc have "click_marker ?h w = toggleTooltip s (coordinates f) w"
    by (simp add: click_marker_def)
  with assms(7,8) show ?thesis
    by (simp add: toggleTooltip_def session_feature_def)
qed

theorem marker_click_opens_at_creation_coordinate_witness:
  "pool_inv world_empty \<and>
   properties (session_feature sess_a) = Some (PointProps sess_a) \<and>
   truthy_str (session_id sess_a) \<and>
   pool_get (session_id sess_a) (markersMap world_empty) = None \<and>
   later (upsert (session_feature sess_a) world_empty) world_moved \<and>
   (session_id sess_a, length (store world_empty)) \<in> set (markersMap world_moved) \<and>
   map_current world_moved \<and> popup_created world_moved \<and> \<not> popup_open world_moved \<and>
   m_lnglat (store world_moved ! 0) = (3, 4) \<and>
   popup_open (click_marker 0 world_moved) \<and>
   openTooltipSessionId (click_marker 0 world_moved) = Some ''a'' \<and>
   popup_session (click_marker 0 world_moved) = Some sess_a \<and>
   popup_lnglat (click_marker 0 world_moved) = Some (coordinates (session_feature sess_a)) \<and>
   coordinates (session_feature sess_a) =
     (round4 (to_number (lon sess_a)), round4 (to_number (lat sess_a))) \<and>
   later (upsert (session_feature sess_a) world_empty) (click_marker 0 world_moved) \<and>
   popup_open (click_marker 0 world_moved) \<and>
   openTooltipSessionId (click_marker 0 world_moved) = Some (session_id sess_a) \<and>
   \<not> popup_open (click_marker 0 (click_marker 0 world_moved)) \<and>
   openTooltipSessionId (click_marker 0 (click_marker 0 world_moved)) = None \<and>
   later (upsert (session_feature sess_a) world_empty) (click_marker 1 world_moved) \<and>
   popup_open (click_marker 1 world_moved) \<and>
   openTooltipSessionId (click_marker 1 world_moved) \<noteq> Some (session_id sess_a) \<and>
   popup_open (click_marker 0 (click_marker 1 world_moved)) \<and>
   openTooltipSessionId (click_marker 0 (click_marker 1 world_moved)) = Some ''a'' \<and>
   popup_lnglat (click_marker 0 (click_marker 1 world_moved)) =
     Some (coordinates (session_feature sess_a))"
proof -
  have e: "pool_inv world_empty"
    by (simp add: pool_inv_def world_empty_def)
  have f: "properties (session_feature sess_a) = Some (PointProps sess_a)"
    by (simp add: session_feature_def)
  have t: "truthy_str (session_id sess_a)" "session_id sess_a = ''a''"
    by (simp_all add: truthy_str_def sess_a_def)
  have g: "pool_get (session_id sess_a) (markersMap world_empty) = None"
    "length (store world_empty) = 0"
    by (simp_all add: pool_get_def world_empty_def)
  have m: "(session_id sess_a, length (store world_empty)) \<in> set (markersMap world_moved)"
    "map_current world_moved" "popup_created world_moved" "\<not> popup_open world_moved"
    "m_lnglat (store world_moved ! 0) = (3, 4)"
    by (simp_all add: world_moved_def world_ab_def world_empty_def mounted_def sess_a_def)
  note l0 = later_world_moved
  have l1: "later (upsert (session_feature sess_a) world_empty) (click_marker 0 world_moved)"
    using l0 by (rule later_click_marker)
  have l2: "later (upsert (session_feature sess_a) world_empty) (click_marker 1 world_moved)"
    using l0 by (rule later_click_marker)
  have c0: "(session_id sess_a, length (store world_empty)) \<in> set (markersMap (click_marker 0 world_moved))"
    "map_current (click_marker 0 world_moved)" "popup_created (click_marker 0 world_moved)"
    using m by (simp_all add: click_marker_def toggleTooltip_def)
  have c1: "(session_id sess_a, length (store world_empty)) \<in> set (markersMap (click_marker 1 world_moved))"
    "map_current (click_marker 1 world_moved)" "popup_created (click_marker 1 world_moved)"
    using m by (simp_all add: click_marker_def toggleTooltip_def)
  have b: "popup_open (click_marker 1 world_moved)"
    "openTooltipSessionId (click_marker 1 world_moved) \<noteq> Some (session_id sess_a)"
    by (simp_all add: click_marker_def toggleTooltip_def world_moved_def world_ab_def mounted_def
        new_marker_def sess_a_def sess_b_def)
  from marker_click_opens_at_creation_coordinate[OF e f t(1) g(1) l0 m(1,2,3)] m(4)
  have 1: "popup_open (click_marker 0 world_moved)"
    "openTooltipSessionId (click_marker 0 world_moved) = Some (session_id sess_a)"
    "popup_session (click_marker 0 world_moved) = Some sess_a"
    "popup_lnglat (click_marker 0 world_moved) = Some (coordinates (session_feature sess_a))"
    "coordinates (session_feature sess_a) =
       (round4 (to_number (lon sess_a)), round4 (to_number (lat sess_a)))"
    by (simp_all add: g(2))
  from marker_click_opens_at_creation_coordinate[OF e f t(1) g(1) l1 c0] 1(1,2)
  have 2: "\<not> popup_open (click_marker 0 (click_marker 0 world_moved))"
    "openTooltipSessionId (click_marker 0 (click_marker 0 world_moved)) = None"
    by (simp_all add: g(2))
  from marker_click_opens_at_creation_coordinate[OF e f t(1) g(1) l2 c1] b
  have 3: "popup_open (click_marker 0 (click_marker 1 world_moved))"
    "openTooltipSessionId (click_marker 0 (click_marker 1 world_moved)) = Some (session_id sess_a)"
    "popup_lnglat (click_marker 0 (click_marker 1 world_moved)) =
       Some (coordinates (session_feature sess_a))"
    by (simp_all add: g(2))
  from e f t g(1) l0 l1 l2 m b 1 2 3 show ?thesis by (simp add: t(2))
qed

text \<open>
  C10. A leaf fetch that reports an error, no leaves or an empty list adds nothing to
  \<^verbatim>\<open>unclusteredFeatures\<close>, issues no further fetch and resolves its promise, so that
  once the other promises have resolved the pass completes with the diff of the
  remaining features. An expansion-zoom query that reports an error or no zoom leaves the
  state as it was.
\<close>

theorem failed_queries_are_skipped:
  "((fst r \<noteq> None \<or> snd r = None \<or> snd r = Some []) \<and>
    i < length (promises p) \<and> \<not> resolved (promises p ! i) \<longrightarrow>
      unclusteredFeatures (resolve_fetch i r p) = unclusteredFeatures p \<and>
      length (promises (resolve_fetch i r p)) = length (promises p) \<and>
      resolved (promises (resolve_fetch i r p) ! i) \<and>
      ((\<forall>j<length (promises p). j \<noteq> i \<longrightarrow> resolved (promises p ! j)) \<longrightarrow>
         run_pass [Resolve i r, Continue] (Awaiting p, w) =
           (Completed, apply_diff (unclusteredFeatures p) w))) \<and>
   (fst z \<noteq> None \<or> \<not> truthy_num (snd z) \<longrightarrow> handleClusterClick features z w = w)"
proof (intro conjI impI)
  assume a: "(fst r \<noteq> None \<or> snd r = None \<or> snd r = Some []) \<and>
    i < length (promises p) \<and> \<not> resolved (promises p ! i)"
  then have lv: "leaves_of r = []"
    by (cases r) (auto simp: leaves_of_def split: option.splits)
  with a show uf: "unclusteredFeatures (resolve_fetch i r p) = unclusteredFeatures p"
    by (simp add: resolve_fetch_def)
  from a show "length (promises (resolve_fetch i r p)) = length (promises p)"
    by (simp add: resolve_fetch_def)
  from a show ri: "resolved (promises (resolve_fetch i r p) ! i)"
    by (simp add: resolve_fetch_def)
  assume others: "\<forall>j<length (promises p). j \<noteq> i \<longrightarrow> resolved (promises p ! j)"
  have "pass_ready (resolve_fetch i r p)"
    unfolding pass_ready_def list_all_length
  proof (intro allI impI)
    fix j assume "j < length (promises (resolve_fetch i r p))"
    with a others ri show "resolved (promises (resolve_fetch i r p) ! j)"
      by (cases "j = i") (simp_all add: resolve_fetch_def)
  qed
  with uf show "run_pass [Resolve i r, Continue] (Awaiting p, w) =
           (Completed, apply_diff (unclusteredFeatures p) w)"
    by simp
next
  assume "fst z \<noteq> None \<or> \<not> truthy_num (snd z)"
  then show "handleClusterClick features z w = w"
    by (simp add: handleClusterClick_def split: list.splits)
qed

theorem failed_queries_are_skipped_witness:
  "fst (Some (Error ''gone''), None :: feature list option) \<noteq> None \<and>
   (0::nat) < length (promises (query_pass [feat_b, small_cluster])) \<and>
   \<not> resolved (promises (query_pass [feat_b, small_cluster]) ! 0) \<and>
   unclusteredFeatures (resolve_fetch 0 (Some (Error ''gone''), None) (query_pass [feat_b, small_cluster]))
     = [feat_b] \<and>
   run_pass [Resolve 0 (Some (Error ''gone''), None), Continue]
       (Awaiting (query_pass [feat_b, small_cluster]), world_a) =
     (Completed, world_b) \<and>
   fst (Some (Error ''gone''), None :: real option) \<noteq> None \<and>
   handleClusterClick [big_cluster] (Some (Error ''gone''), None) world_a = world_a"
proof -
  have q: "query_pass [feat_b, small_cluster] =
    \<lparr>unclusteredFeatures = [feat_b],
     promises = [\<lparr>req_cluster_id = 7, req_limit = 3, req_offset = 0, resolved = False\<rparr>]\<rparr>"
    by (simp add: pass_defs small_cluster_def feat_b_def)
  have d: "apply_diff [feat_b] world_a = world_b"
    by (simp add: model_defs sample_defs)
  have h: "(fst (Some (Error ''gone''), None :: feature list option) \<noteq> None \<or>
            snd (Some (Error ''gone''), None :: feature list option) = None \<or>
            snd (Some (Error ''gone''), None :: feature list option) = Some []) \<and>
           0 < length (promises (query_pass [feat_b, small_cluster])) \<and>
           \<not> resolved (promises (query_pass [feat_b, small_cluster]) ! 0)"
    by (simp add: q)
  have o: "\<forall>j<length (promises (query_pass [feat_b, small_cluster])). j \<noteq> 0 \<longrightarrow>
             resolved (promises (query_pass [feat_b, small_cluster]) ! j)"
    by (simp add: q)
  from failed_queries_are_skipped[of "(Some (Error ''gone''), None)" 0
      "query_pass [feat_b, small_cluster]" world_a "(Some (Error ''gone''), None)" "[big_cluster]"] h o
  have "unclusteredFeatures (resolve_fetch 0 (Some (Error ''gone''), None)
           (query_pass [feat_b, small_cluster])) = unclusteredFeatures (query_pass [feat_b, small_cluster])"
    and "run_pass [Resolve 0 (Some (Error ''gone''), None), Continue]
       (Awaiting (query_pass [feat_b, small_cluster]), world_a) =
     (Completed, apply_diff (unclusteredFeatures (query_pass [feat_b, small_cluster])) world_a)"
    and "handleClusterClick [big_cluster] (Some (Error ''gone''), None) world_a = world_a"
    by simp_all
  with h d show ?thesis by (simp add: q)
qed

end
